theory Spec2Isabelle
  imports Complex_Main "HOL-Library.Char_ord" "HOL-Library.List_Lexorder"
begin

section \<open>Common data: errors and array values\<close>

text \<open>
  The Python exceptions that the modelled functions of \<^verbatim>\<open>DLWP/model\<close> raise, either
  by an explicit \<^verbatim>\<open>raise\<close> or inside a numpy / xarray call.
\<close>

datatype error =
  ValueError | IndexError | KeyError | IOError | ZeroDivisionError | TypeError | AttributeError

text \<open>
  One entry of a floating-point array. Only the distinctions the code looks at are kept:
  whether the entry is NaN, whether it is infinite, and how a finite entry compares with
  the constants \<^verbatim>\<open>1.e30\<close> and \<^verbatim>\<open>-1.e30\<close>. Finite entries are exact reals; rounding is
  not modelled.
\<close>

datatype fval = NaN | NegInf | PosInf | Fin real

text \<open>\<^verbatim>\<open>np.isnan\<close> on one entry.\<close>

fun isnan :: "fval \<Rightarrow> bool" where
  "isnan NaN = True"
| "isnan _ = False"

text \<open>
  The mask \<^verbatim>\<open>(x > 1.e30) | (x < -1.e30)\<close> on one entry; every comparison with NaN is
  false.
\<close>

fun is_large :: "fval \<Rightarrow> bool" where
  "is_large NaN = False"
| "is_large NegInf = True"
| "is_large PosInf = True"
| "is_large (Fin x) = (x > 10 ^ 30 \<or> x < - (10 ^ 30))"

text \<open>
  A numpy array: its shape and its entries in C (row-major) order. A well-formed array
  has as many entries as the product of its shape.
\<close>

record ndarray =
  shape :: "nat list"
  elems :: "fval list"

definition wf_ndarray :: "ndarray \<Rightarrow> bool" where
  "wf_ndarray a = (length (elems a) = prod_list (shape a))"

section \<open>preprocessing.delete\_nan\_samples\<close>

text \<open>
  \<^verbatim>\<open>a[(a > 1.e30) | (a < -1.e30)] = np.nan\<close>: the masked assignment, which writes into the
  array object it is applied to.
\<close>

definition fill_large :: "ndarray \<Rightarrow> ndarray" where
  "fill_large a = a\<lparr>elems := map (\<lambda>x. if is_large x then NaN else x) (elems a)\<rparr>"

text \<open>
  \<^verbatim>\<open>a.reshape((a.shape[0], -1))\<close>, as the list of the flattened samples. Indexing the
  shape of a 0-dimensional array raises IndexError. numpy infers the \<^verbatim>\<open>-1\<close> as
  \<^verbatim>\<open>size / shape[0]\<close> and raises ValueError when the known dimensions multiply to 0,
  that is, when the array has no sample.
\<close>

definition reshape_samples :: "ndarray \<Rightarrow> error + fval list list" where
  "reshape_samples a =
     (case shape a of
        [] \<Rightarrow> Inl IndexError
      | n # rest \<Rightarrow>
          if n = 0 \<or> length (elems a) mod n \<noteq> 0 then Inl ValueError
          else let w = length (elems a) div n
               in Inr (map (\<lambda>i. take w (drop (i * w) (elems a))) [0..<n]))"

text \<open>
  \<^verbatim>\<open>list(np.where(mask)[0])\<close> for a two-dimensional boolean mask: the row index of every
  true entry, row by row (an index is repeated once per true entry of its row).
\<close>

definition where_rows :: "bool list list \<Rightarrow> nat list" where
  "where_rows m = concat (map (\<lambda>i. map (\<lambda>_. i) (filter (\<lambda>b. b) (m ! i))) [0..<length m])"

text \<open>
  \<^verbatim>\<open>np.mean(np.isnan(rows), axis=1) >= threshold\<close> for one row: the fraction of NaN
  entries against the threshold. The mean of an empty row is NaN, which compares false.
\<close>

definition nan_fraction_ge :: "real \<Rightarrow> fval list \<Rightarrow> bool" where
  "nan_fraction_ge thr r =
     (r \<noteq> [] \<and> thr \<le> real (length (filter isnan r)) / real (length r))"

text \<open>The indices \<^verbatim>\<open>p_ind\<close> (or \<^verbatim>\<open>t_ind\<close>) of one reshaped array, for either branch.\<close>

definition bad_indices :: "real option \<Rightarrow> fval list list \<Rightarrow> nat list" where
  "bad_indices threshold rows =
     (case threshold of
        None \<Rightarrow> where_rows (map (map isnan) rows)
      | Some thr \<Rightarrow> filter (\<lambda>i. nan_fraction_ge thr (rows ! i)) [0..<length rows])"

text \<open>
  \<^verbatim>\<open>np.delete(rows, bad_ind, axis=0)\<close> for a list of indices: an index that is out of
  bounds raises IndexError, otherwise the rows at the listed indices are left out.
\<close>

definition np_delete :: "'a list \<Rightarrow> nat list \<Rightarrow> error + 'a list" where
  "np_delete rows bad =
     (if \<exists>i \<in> set bad. length rows \<le> i then Inl IndexError
      else Inr (map (\<lambda>i. rows ! i) (filter (\<lambda>i. i \<notin> set bad) [0..<length rows])))"

text \<open>
  \<^verbatim>\<open>rows.reshape((rows.shape[0],) + shape[1:])\<close>: the reduced rows under the trailing
  shape of the input.
\<close>

definition restore_shape :: "nat list \<Rightarrow> fval list list \<Rightarrow> ndarray" where
  "restore_shape shp rows = \<lparr>shape = length rows # tl shp, elems = concat rows\<rparr>"

text \<open>The guard of line 30: a threshold that is given must lie in \<open>[0, 1]\<close>.\<close>

definition threshold_ok :: "real option \<Rightarrow> bool" where
  "threshold_ok threshold =
     (case threshold of None \<Rightarrow> True | Some thr \<Rightarrow> 0 \<le> thr \<and> thr \<le> 1)"

text \<open>
  Lines 35 to 50: the two arrays are reshaped to one row per sample, the indices of the
  bad samples of both are collected, the rows at these indices are deleted from both, and
  the trailing shapes are restored. The result is the exception raised on the way, or the
  pair of reduced arrays (new arrays: \<^verbatim>\<open>np.delete\<close> copies).
\<close>

definition reduce_samples ::
  "ndarray \<Rightarrow> ndarray \<Rightarrow> real option \<Rightarrow> error + ndarray \<times> ndarray" where
  "reduce_samples p t threshold =
     (case reshape_samples p of
        Inl e \<Rightarrow> Inl e
      | Inr p_rows \<Rightarrow>
          (case reshape_samples t of
             Inl e \<Rightarrow> Inl e
           | Inr t_rows \<Rightarrow>
               (let bad_ind = bad_indices threshold p_rows @ bad_indices threshold t_rows
                in (case np_delete p_rows bad_ind of
                      Inl e \<Rightarrow> Inl e
                    | Inr p_kept \<Rightarrow>
                        (case np_delete t_rows bad_ind of
                           Inl e \<Rightarrow> Inl e
                         | Inr t_kept \<Rightarrow>
                             Inr (restore_shape (shape p) p_kept,
                                  restore_shape (shape t) t_kept))))))"

text \<open>
  The whole function, with its effect on the caller's arrays made explicit: the first
  component is the state of the two array objects passed in when the call ends (by
  return or by exception), the second is the outcome of the call. The threshold guard
  comes first; the masked assignments of the \<^verbatim>\<open>large_fill_value\<close> branch are the only
  writes to the caller's objects (the same write on both, so passing one object twice
  makes no difference).
\<close>

definition delete_nan_samples ::
  "ndarray \<Rightarrow> ndarray \<Rightarrow> bool \<Rightarrow> real option
     \<Rightarrow> (ndarray \<times> ndarray) \<times> (error + ndarray \<times> ndarray)" where
  "delete_nan_samples predictors targets large_fill_value threshold =
     (if \<not> threshold_ok threshold then ((predictors, targets), Inl ValueError)
      else
        (let p = (if large_fill_value then fill_large predictors else predictors);
             t = (if large_fill_value then fill_large targets else targets)
         in ((p, t), reduce_samples p t threshold)))"

text \<open>
  Notions used to state the results: the flattened values of sample \<open>i\<close> of an array,
  whether a flattened sample counts as missing under a threshold setting, and the sample
  indices of a pair of arrays at which neither sample is missing.
\<close>

definition flat_sample :: "ndarray \<Rightarrow> nat \<Rightarrow> fval list" where
  "flat_sample a i =
     take (prod_list (tl (shape a))) (drop (i * prod_list (tl (shape a))) (elems a))"

definition sample_missing :: "real option \<Rightarrow> fval list \<Rightarrow> bool" where
  "sample_missing threshold r =
     (case threshold of
        None \<Rightarrow> (\<exists>x \<in> set r. isnan x)
      | Some thr \<Rightarrow> nan_fraction_ge thr r)"

definition kept_indices :: "real option \<Rightarrow> ndarray \<Rightarrow> ndarray \<Rightarrow> nat \<Rightarrow> nat list" where
  "kept_indices threshold p t n =
     filter (\<lambda>i. \<not> sample_missing threshold (flat_sample p i) \<and>
                 \<not> sample_missing threshold (flat_sample t i)) [0..<n]"

section \<open>extensions.TimeSeriesEstimator: construction\<close>

text \<open>
  The classes that \<^verbatim>\<open>__init__\<close> tests its arguments against with \<^verbatim>\<open>isinstance\<close>; anything
  else is \<open>OtherModel\<close> or \<open>OtherGenerator\<close>.
\<close>

datatype model_kind = DLWPNeuralNet | DLWPTorchNN | OtherModel

datatype generator_kind = DataGenerator | SmartDataGenerator | SeriesDataGenerator | OtherGenerator

text \<open>
  A selection dictionary (\<^verbatim>\<open>_input_sel\<close>, \<^verbatim>\<open>_output_sel\<close>, \<^verbatim>\<open>_outputs_in_inputs\<close>) and
  likewise the coordinates of a dataset or data variable: the entries under the keys
  \<^verbatim>\<open>'varlev'\<close>, \<^verbatim>\<open>'variable'\<close> and \<^verbatim>\<open>'level'\<close>, each absent (\<open>None\<close>) or a sequence of
  labels. Variables and compound labels are strings, levels are integers. Other keys are
  not modelled.
\<close>

record seldict =
  varlev :: "string list option"
  variable :: "string list option"
  level :: "int list option"

definition empty_sel :: seldict where
  "empty_sel = \<lparr>varlev = None, variable = None, level = None\<rparr>"

text \<open>\<^verbatim>\<open>d[key]\<close> on a dictionary or coordinate set: KeyError when the key is absent.\<close>

definition getitem :: "'a option \<Rightarrow> error + 'a" where
  "getitem entry = (case entry of None \<Rightarrow> Inl KeyError | Some v \<Rightarrow> Inr v)"

text \<open>
  What \<^verbatim>\<open>__init__\<close> reads of the model and of the generator. \<open>add_insolation_attr\<close> is
  \<open>None\<close> when the generator has no attribute \<^verbatim>\<open>_add_insolation\<close>; \<open>ds_predictors\<close> and
  \<open>ds_targets\<close> are the coordinates of the data variables \<^verbatim>\<open>ds.predictors\<close> and
  \<^verbatim>\<open>ds.targets\<close>, \<open>None\<close> when the dataset has no such variable. The selections and
  the time-step counts of the generator are read only for a \<open>SeriesDataGenerator\<close>.
\<close>

record model =
  model_kind :: model_kind
  time_dim :: nat

record generator =
  generator_kind :: generator_kind
  add_insolation_attr :: "bool option"
  ds_has_varlev_dim :: bool
  ds_sample :: "int list"
  ds_coords :: seldict
  ds_predictors :: "seldict option"
  ds_targets :: "seldict option"
  gen_input_sel :: seldict
  gen_output_sel :: seldict
  gen_input_time_steps :: nat
  gen_output_time_steps :: nat

text \<open>The attributes of a constructed estimator.\<close>

record estimator =
  add_insolation :: bool
  uses_varlev :: bool
  has_targets :: bool
  is_series :: bool
  output_sel :: seldict
  input_sel :: seldict
  outputs_in_inputs :: seldict
  dt :: int
  input_time_steps :: nat
  output_time_steps :: nat

text \<open>\<^verbatim>\<open>str(l)\<close> for an integer level: its decimal digits, with a minus sign when negative.\<close>

fun str_nat :: "nat \<Rightarrow> string" where
  "str_nat n =
     (if n < 10 then [''0123456789'' ! n]
      else str_nat (n div 10) @ [''0123456789'' ! (n mod 10)])"

definition str_int :: "int \<Rightarrow> string" where
  "str_int i = (if i < 0 then ''-'' @ str_nat (nat (- i)) else str_nat (nat i))"

text \<open>
  \<^verbatim>\<open>np.meshgrid(x, y)\<close> with the default \<^verbatim>\<open>'xy'\<close> indexing: two arrays of shape
  \<open>(len y, len x)\<close>, the first with \<open>x\<close> along every row, the second with \<open>y ! i\<close> all
  along row \<open>i\<close>. \<^verbatim>\<open>flatten()\<close> of a two-dimensional array is \<open>concat\<close>.
\<close>

definition meshgrid :: "'a list \<Rightarrow> 'b list \<Rightarrow> 'a list list \<times> 'b list list" where
  "meshgrid x y = (map (\<lambda>_. x) y, map (\<lambda>v. map (\<lambda>_. v) x) y)"

text \<open>
  Lines 107-108 (and 110-111): the compound labels of a selection with separate variable
  and level entries, \<^verbatim>\<open>'/'.join([v, str(l)])\<close> over the zipped flattened grids.
\<close>

definition flatten_varlev :: "string list \<Rightarrow> int list \<Rightarrow> string list" where
  "flatten_varlev vars levs =
     (let (lev, var) = meshgrid levs vars
      in map (\<lambda>(v, l). v @ ''/'' @ str_int l) (zip (concat var) (concat lev)))"

text \<open>
  The comprehension \<^verbatim>\<open>[v for v in out if v in inp]\<close> of lines 71 and 115-117: the
  entries of the output sequence, in order and with their repetitions, that occur in the
  input sequence.
\<close>

definition keep_in :: "'a list \<Rightarrow> 'a list \<Rightarrow> 'a list" where
  "keep_in out inp = filter (\<lambda>v. v \<in> set inp) out"

text \<open>
  The selection with an absent \<^verbatim>\<open>'variable'\<close> or \<^verbatim>\<open>'level'\<close> entry taken from the
  dataset's coordinates (lines 81-84 and 99-102); the dataset is only asked for an entry
  that is absent.
\<close>

definition fill_from_ds :: "seldict \<Rightarrow> seldict \<Rightarrow> error + seldict" where
  "fill_from_ds sel ds =
     (case (if variable sel = None then getitem (variable ds) else getitem (variable sel)) of
        Inl e \<Rightarrow> Inl e
      | Inr vs \<Rightarrow>
          (case (if level sel = None then getitem (level ds) else getitem (level sel)) of
             Inl e \<Rightarrow> Inl e
           | Inr ls \<Rightarrow> Inr (sel\<lparr>variable := Some vs, level := Some ls\<rparr>)))"

text \<open>\<^verbatim>\<open>{'varlev': coords['varlev'][:]}\<close>, and the same for the two separate axes.\<close>

definition varlev_of :: "seldict \<Rightarrow> error + seldict" where
  "varlev_of c =
     (case getitem (varlev c) of
        Inl e \<Rightarrow> Inl e
      | Inr vl \<Rightarrow> Inr \<lparr>varlev = Some vl, variable = None, level = None\<rparr>)"

definition variable_level_of :: "seldict \<Rightarrow> error + seldict" where
  "variable_level_of c =
     (case getitem (variable c) of
        Inl e \<Rightarrow> Inl e
      | Inr vs \<Rightarrow>
          (case getitem (level c) of
             Inl e \<Rightarrow> Inl e
           | Inr ls \<Rightarrow> Inr \<lparr>varlev = None, variable = Some vs, level = Some ls\<rparr>))"

text \<open>
  Lines 50-60 and 74-91: the output selection before the compound labels are added.
  Reading \<^verbatim>\<open>ds.targets\<close> happens only when the dataset has a \<^verbatim>\<open>targets\<close> variable.
\<close>

definition find_output_sel :: "generator \<Rightarrow> error + seldict" where
  "find_output_sel g =
     (if ds_has_varlev_dim g then
        (if generator_kind g = SeriesDataGenerator then
           (if gen_output_sel g = empty_sel then varlev_of (ds_coords g)
            else Inr (gen_output_sel g))
         else
           (case ds_targets g of
              Some tc \<Rightarrow> varlev_of tc
            | None \<Rightarrow> varlev_of (ds_coords g)))
      else
        (if generator_kind g = SeriesDataGenerator then
           (if gen_output_sel g = empty_sel then variable_level_of (ds_coords g)
            else fill_from_ds (gen_output_sel g) (ds_coords g))
         else
           (case ds_targets g of
              Some tc \<Rightarrow> variable_level_of tc
            | None \<Rightarrow> variable_level_of (ds_coords g))))"

text \<open>
  Lines 61-68 and 92-105: the input selection before the compound labels are added. A
  dataset without a \<^verbatim>\<open>predictors\<close> variable makes \<^verbatim>\<open>ds.predictors\<close> raise AttributeError.
\<close>

definition find_input_sel :: "generator \<Rightarrow> error + seldict" where
  "find_input_sel g =
     (if ds_has_varlev_dim g then
        (if generator_kind g = SeriesDataGenerator then
           (if gen_input_sel g = empty_sel then varlev_of (ds_coords g)
            else Inr (gen_input_sel g))
         else
           (case ds_predictors g of
              Some pc \<Rightarrow> varlev_of pc
            | None \<Rightarrow> Inl AttributeError))
      else
        (if generator_kind g = SeriesDataGenerator then
           (if gen_input_sel g = empty_sel then variable_level_of (ds_coords g)
            else fill_from_ds (gen_input_sel g) (ds_coords g))
         else
           (case ds_predictors g of
              Some pc \<Rightarrow> variable_level_of pc
            | None \<Rightarrow> Inl AttributeError)))"

text \<open>
  Lines 106-112: with separate axes, the compound labels are computed from the variable
  and level entries (both present by then) and stored under \<^verbatim>\<open>'varlev'\<close>.
\<close>

definition add_varlev :: "seldict \<Rightarrow> seldict" where
  "add_varlev sel =
     sel\<lparr>varlev := Some (flatten_varlev (the (variable sel)) (the (level sel)))\<rparr>"

text \<open>
  Lines 69-72 and 113-118: the outputs that replace inputs, under \<^verbatim>\<open>'varlev'\<close> alone in
  the compound convention (where a user's selection may lack the key: KeyError) and under
  all three keys with separate axes.
\<close>

definition find_outputs_in_inputs :: "bool \<Rightarrow> seldict \<Rightarrow> seldict \<Rightarrow> error + seldict" where
  "find_outputs_in_inputs by_varlev out inp =
     (if by_varlev then
        (case getitem (varlev out) of
           Inl e \<Rightarrow> Inl e
         | Inr ov \<Rightarrow>
             (case getitem (varlev inp) of
                Inl e \<Rightarrow> Inl e
              | Inr iv \<Rightarrow>
                  Inr \<lparr>varlev = Some (keep_in ov iv), variable = None, level = None\<rparr>))
      else
        Inr \<lparr>varlev = Some (keep_in (the (varlev out)) (the (varlev inp))),
             variable = Some (keep_in (the (variable out)) (the (variable inp))),
             level = Some (keep_in (the (level out)) (the (level inp)))\<rparr>)"

text \<open>
  \<^verbatim>\<open>TimeSeriesEstimator.__init__\<close>: the type checks, the time increment from the first
  two samples (IndexError with fewer than two), the selections in the order of the
  source (outputs, inputs, compound labels, overlap), the \<^verbatim>\<open>'SOL'\<close> label appended to
  the input's compound labels after the overlap is computed, and the time-step counts.
\<close>

definition init :: "model \<Rightarrow> generator \<Rightarrow> error + estimator" where
  "init m g =
     (if model_kind m = OtherModel then Inl TypeError
      else if generator_kind g = OtherGenerator then Inl TypeError
      else if length (ds_sample g) < 2 then Inl IndexError
      else
        (case find_output_sel g of
           Inl e \<Rightarrow> Inl e
         | Inr out0 \<Rightarrow>
             (case find_input_sel g of
                Inl e \<Rightarrow> Inl e
              | Inr inp0 \<Rightarrow>
                  (let by_varlev = ds_has_varlev_dim g;
                       inp = (if by_varlev then inp0 else add_varlev inp0);
                       out = (if by_varlev then out0 else add_varlev out0);
                       sol = (case add_insolation_attr g of None \<Rightarrow> False | Some b \<Rightarrow> b);
                       series = (generator_kind g = SeriesDataGenerator)
                   in (case find_outputs_in_inputs by_varlev out inp of
                         Inl e \<Rightarrow> Inl e
                       | Inr ovl \<Rightarrow>
                           Inr \<lparr>add_insolation = sol,
                                uses_varlev = by_varlev,
                                has_targets = (ds_targets g \<noteq> None),
                                is_series = series,
                                output_sel = out,
                                input_sel =
                                  (if sol then inp\<lparr>varlev := Some (the (varlev inp) @ [''SOL''])\<rparr>
                                   else inp),
                                outputs_in_inputs = ovl,
                                dt = ds_sample g ! 1 - ds_sample g ! 0,
                                input_time_steps =
                                  (if series then gen_input_time_steps g else time_dim m),
                                output_time_steps =
                                  (if series then gen_output_time_steps g else time_dim m)\<rparr>)))))"

text \<open>
  How an entry of \<^verbatim>\<open>_outputs_in_inputs\<close> relates to the entries of the output and input
  selections under the same key: it is the output entry filtered by the input entry as it
  was when the overlap was computed, that is, before \<open>extra\<close> labels were appended to it.
\<close>

definition overlap_of ::
  "'a list option \<Rightarrow> 'a list option \<Rightarrow> 'a list option \<Rightarrow> 'a list \<Rightarrow> bool" where
  "overlap_of ovl out inp extra =
     (case ovl of
        None \<Rightarrow> True
      | Some ov \<Rightarrow>
          (\<exists>ou i0. out = Some ou \<and> (inp = Some i0 \<or> inp = Some (i0 @ extra)) \<and>
                   ov = keep_in ou i0))"

section \<open>extensions.TimeSeriesEstimator.predict: expanding the compound labels\<close>

text \<open>The position of the first occurrence of an entry in a list.\<close>

fun first_index :: "'a list \<Rightarrow> 'a \<Rightarrow> nat" where
  "first_index [] y = 0"
| "first_index (x # xs) y = (if x = y then 0 else Suc (first_index xs y))"

text \<open>
  The result of unstacking an array along its compound-label axis: the coordinates of
  the new \<^verbatim>\<open>variable\<close> and \<^verbatim>\<open>level\<close> axes and, for each variable and each level, the
  slab of the array that belongs to the pair.
\<close>

record 'a unstacked =
  variable_axis :: "string list"
  level_axis :: "int list"
  slabs :: "'a list list"

text \<open>
  Lines 269-271, applied to the slabs \<open>xs\<close> of the array along the compound-label axis.
  \<^verbatim>\<open>pd.MultiIndex.from_product((var, lev))\<close> lists the pairs variable-major;
  \<^verbatim>\<open>assign_coords\<close> raises ValueError unless there is one pair per slab; \<^verbatim>\<open>unstack\<close>
  raises ValueError when a pair occurs twice, and otherwise lays the slabs out over the
  sorted distinct variables and levels, each pair getting the slab at its position in
  the index.
\<close>

definition unstack_varlev :: "string list \<Rightarrow> int list \<Rightarrow> 'a list \<Rightarrow> error + 'a unstacked" where
  "unstack_varlev var lev xs =
     (let vl = List.product var lev
      in if length vl \<noteq> length xs then Inl ValueError
         else if \<not> distinct vl then Inl ValueError
         else
           (let vs = sort (remdups var); ls = sort (remdups lev)
            in Inr \<lparr>variable_axis = vs, level_axis = ls,
                    slabs = map (\<lambda>v. map (\<lambda>l. xs ! first_index vl (v, l)) ls) vs\<rparr>))"

section \<open>preprocessing.Preprocessor.data\_to\_samples\<close>

text \<open>
  The arguments \<^verbatim>\<open>variables\<close> and \<^verbatim>\<open>levels\<close>: the string \<^verbatim>\<open>'all'\<close>, a single entry, or a
  list (or tuple) of entries.
\<close>

datatype 'a choice = All | One 'a | Many "'a list"

text \<open>
  The raw data object behind \<^verbatim>\<open>self.raw_data\<close>: whether its \<^verbatim>\<open>Dataset\<close> is open, the names
  of the data variables, the time and level coordinates of the dataset, the dates
  \<^verbatim>\<open>dataset_dates\<close>, and the stored field: the latitude-longitude grid of a variable at
  a time and a level. Times are integers (any fixed unit); a grid is opaque.
\<close>

record 'g raw_data =
  dataset_open :: bool
  data_vars :: "string list"
  time_coord :: "int list"
  level_coord :: "int list"
  dataset_dates :: "int list"
  field :: "string \<Rightarrow> int \<Rightarrow> int \<Rightarrow> 'g"

text \<open>
  The dataset left on \<^verbatim>\<open>self.data\<close>: the two arrays laid out as (sample, variable, level)
  with a grid (lat, lon) in each cell, and the coordinates. A cell that was never written
  holds the initial NaN (or the file's fill value), modelled as \<open>None\<close>. The variable
  names are a coordinate of the in-memory dataset only; the file has none for them.
\<close>

record 'g sample_data =
  predictors :: "'g option list list list"
  targets :: "'g option list list list"
  variable_coord :: "string list option"
  levels_coord :: "int list"

text \<open>Lines 78-85: the argument as a list, \<^verbatim>\<open>'all'\<close> standing for what the dataset has.\<close>

definition as_list :: "'a choice \<Rightarrow> 'a list \<Rightarrow> 'a list" where
  "as_list c available = (case c of All \<Rightarrow> available | One x \<Rightarrow> [x] | Many xs \<Rightarrow> xs)"

text \<open>
  \<^verbatim>\<open>ds[var].isel(time=s).values\<close> on the dataset selected at line 89 (times
  \<^verbatim>\<open>all_dates\<close>, levels \<^verbatim>\<open>levels\<close>): one grid per selected level, at the \<open>s\<close>-th date.
\<close>

definition slab :: "'g raw_data \<Rightarrow> int list \<Rightarrow> int list \<Rightarrow> string \<Rightarrow> nat \<Rightarrow> 'g option list" where
  "slab rd all_dates levels var s = map (\<lambda>l. Some (field rd var (all_dates ! s) l)) levels"

text \<open>
  The assignment \<^verbatim>\<open>a[s, v, ...] = x\<close>. The in-memory array has its \<open>n_sample\<close> rows from
  the start; the file variable grows along its unlimited \<^verbatim>\<open>sample\<close> dimension when row
  \<open>s\<close> is first written, the new row holding fill values.
\<close>

definition assign_slab ::
  "nat \<Rightarrow> nat \<Rightarrow> nat \<Rightarrow> nat \<Rightarrow> 'g option list \<Rightarrow> 'g option list list list \<Rightarrow> 'g option list list list" where
  "assign_slab n_var n_level s v x a =
     (let a' = (if s < length a then a
                else a @ replicate (Suc s - length a) (replicate n_var (replicate n_level None)))
      in a'[s := (a' ! s)[v := x]])"

text \<open>
  Lines 161-163, the loop over \<^verbatim>\<open>enumerate(variables)\<close> for one sample \<open>s\<close>: \<^verbatim>\<open>ds[var]\<close>
  raises KeyError for a name that is not a data variable; the predictor gets the slab
  at time index \<open>s\<close>, the target the one at \<open>s + 1\<close>.
\<close>

fun fill_variables ::
  "'g raw_data \<Rightarrow> int list \<Rightarrow> int list \<Rightarrow> nat \<Rightarrow> nat \<Rightarrow> (nat \<times> string) list
     \<Rightarrow> 'g option list list list \<times> 'g option list list list
     \<Rightarrow> error + 'g option list list list \<times> 'g option list list list" where
  "fill_variables rd all_dates levels n_var s [] (p, t) = Inr (p, t)"
| "fill_variables rd all_dates levels n_var s ((v, var) # rest) (p, t) =
     (if var \<notin> set (data_vars rd) then Inl KeyError
      else fill_variables rd all_dates levels n_var s rest
             (assign_slab n_var (length levels) s v (slab rd all_dates levels var s) p,
              assign_slab n_var (length levels) s v (slab rd all_dates levels var (s + 1)) t))"

text \<open>Lines 158-163, the loop over the samples \<^verbatim>\<open>range(n_sample)\<close>.\<close>

fun fill_samples ::
  "'g raw_data \<Rightarrow> int list \<Rightarrow> int list \<Rightarrow> string list \<Rightarrow> nat list
     \<Rightarrow> 'g option list list list \<times> 'g option list list list
     \<Rightarrow> error + 'g option list list list \<times> 'g option list list list" where
  "fill_samples rd all_dates levels variables [] (p, t) = Inr (p, t)"
| "fill_samples rd all_dates levels variables (s # ss) (p, t) =
     (case fill_variables rd all_dates levels (length variables) s
             (zip [0..<length variables] variables) (p, t) of
        Inl e \<Rightarrow> Inl e
      | Inr (p', t') \<Rightarrow> fill_samples rd all_dates levels variables ss (p', t'))"

text \<open>
  \<^verbatim>\<open>Preprocessor.data_to_samples\<close>, returning the exception raised or the dataset stored
  on \<^verbatim>\<open>self.data\<close>. In order: IOError when no dataset is open; the arguments as lists;
  the selection of line 89, a KeyError when a date or a level is not a coordinate value of
  the dataset; \<open>n_sample = len(all_dates) - 1\<close> as an integer; without \<^verbatim>\<open>in_memory\<close>,
  IOError when the predictor file exists, and arrays that start without rows; with it,
  ValueError from \<^verbatim>\<open>np.full\<close> when \<open>n_sample\<close> is negative, and arrays of NaN; the
  two loops; the coordinates.
\<close>

definition data_to_samples ::
  "'g raw_data \<Rightarrow> string choice \<Rightarrow> int choice \<Rightarrow> bool \<Rightarrow> bool \<Rightarrow> error + 'g sample_data" where
  "data_to_samples rd variables0 levels0 in_memory file_exists =
     (if \<not> dataset_open rd then Inl IOError
      else
        (let vars_available = data_vars rd;
             variables = as_list variables0 vars_available;
             levels = as_list levels0 (level_coord rd);
             all_dates = dataset_dates rd
         in if \<not> (set all_dates \<subseteq> set (time_coord rd) \<and> set levels \<subseteq> set (level_coord rd))
            then Inl KeyError
            else
              (let n_sample = int (length all_dates) - 1;
                   n_var = length variables;
                   n_level = length levels
               in if \<not> in_memory \<and> file_exists then Inl IOError
                  else if in_memory \<and> n_sample < 0 then Inl ValueError
                  else
                    (let start = (if in_memory
                                  then replicate (nat n_sample) (replicate n_var (replicate n_level None))
                                  else [])
                     in (case fill_samples rd all_dates levels variables [0..<nat n_sample]
                                 (start, start) of
                           Inl e \<Rightarrow> Inl e
                         | Inr (p, t) \<Rightarrow>
                             Inr \<lparr>predictors = p, targets = t,
                                  variable_coord = (if in_memory then Some variables else None),
                                  levels_coord = levels\<rparr>)))))"

section \<open>extensions.TimeSeriesEstimator.predict\<close>

text \<open>
  Lines 151-163: whether the inputs are kept, the effective step size \<open>es\<close> and the
  coordinates \<^verbatim>\<open>in_times\<close> of the input time steps, from the numbers of input and output
  time steps and \<^verbatim>\<open>prefer_first_times\<close>.
\<close>

definition step_sizes :: "nat \<Rightarrow> nat \<Rightarrow> bool \<Rightarrow> bool \<times> nat \<times> int list" where
  "step_sizes n_in n_out prefer_first_times =
     (if n_out \<le> n_in then
        (True, n_out, map (\<lambda>i. int i - (int n_in - int n_out)) [0..<n_in])
      else if prefer_first_times then
        (False, n_in, map int [0..<n_in])
      else
        (False, n_out, map (\<lambda>i. int i + (int n_out - int n_in)) [0..<n_in]))"

text \<open>
  What \<^verbatim>\<open>predict\<close> uses of the generator, the model and numpy besides the attributes of
  the estimator. A grid (the latitude-longitude array of one feature at one time step of
  one sample) is opaque. \<open>samples\<close> is \<^verbatim>\<open>generator.ds.sample[:generator._n_sample]\<close>;
  \<open>generate_p\<close> is the predictor array that \<^verbatim>\<open>generator.generate([])\<close> returns, one row
  of grids per sample (time steps and features flattened); \<open>run_model\<close> is
  \<^verbatim>\<open>model.predict\<close> on such an array, its value being what \<^verbatim>\<open>result[s]\<close> holds after the
  assignment, again one row of grids per sample; \<open>insolation_at\<close> is the insolation grid
  at a time; \<open>nan_grid\<close> is a grid of NaN and \<open>mean_grids\<close> the mean of a list of grids,
  as \<^verbatim>\<open>np.mean\<close> computes it along an axis.
\<close>

record 'g forecast_env =
  samples :: "int list"
  generate_p :: "'g list list"
  run_model :: "'g list list \<Rightarrow> 'g list list"
  insolation_at :: "int \<Rightarrow> 'g"
  nan_grid :: 'g
  mean_grids :: "'g list \<Rightarrow> 'g"

text \<open>The calls to the collaborators that a run of \<^verbatim>\<open>predict\<close> makes, in order.\<close>

datatype event = Generate | ModelPredict

text \<open>
  \<^verbatim>\<open>a.reshape((n, T, -1) + convolution_shape[-2:])\<close> for an array given as rows of grids:
  the grids, in row-major order, are dealt out to \<open>n\<close> samples of \<open>T\<close> time steps of
  equally many features. numpy raises ValueError when the known dimensions multiply to 0
  or do not divide the size.
\<close>

definition reshape_time :: "nat \<Rightarrow> nat \<Rightarrow> 'g list list \<Rightarrow> error + 'g list list list" where
  "reshape_time n T a =
     (if n * T = 0 \<or> length (concat a) mod (n * T) \<noteq> 0 then Inl ValueError
      else Inr (map (\<lambda>i. map (\<lambda>t. take (length (concat a) div (n * T))
                                      (drop ((i * T + t) * (length (concat a) div (n * T)))
                                         (concat a)))
                            [0..<T])
                  [0..<n]))"

text \<open>\<^verbatim>\<open>p_da.values.reshape(p_shape)\<close>: back to one row of grids per sample.\<close>

definition flatten_time :: "'g list list list \<Rightarrow> 'g list list" where
  "flatten_time b = map concat b"

text \<open>
  The shape test of the \<^verbatim>\<open>xr.DataArray\<close> constructor on an array laid out as (sample,
  time step, feature): one sample per sample coordinate, one time step per time-step
  coordinate, one feature per label; ValueError otherwise.
\<close>

definition shaped :: "nat \<Rightarrow> nat \<Rightarrow> nat \<Rightarrow> 'g list list list \<Rightarrow> bool" where
  "shaped n T F b =
     (length b = n \<and> (\<forall>r \<in> set b. length r = T \<and> (\<forall>c \<in> set r. length c = F)))"

definition data_array ::
  "nat \<Rightarrow> nat \<Rightarrow> nat \<Rightarrow> 'g list list list \<Rightarrow> error + 'g list list list" where
  "data_array n T F b = (if shaped n T F b then Inr b else Inl ValueError)"

text \<open>
  Line 180, \<^verbatim>\<open>p.mean(axis=0)\<close>: for every time step and feature the mean of the grids of
  all samples.
\<close>

definition mean_over_samples ::
  "('g list \<Rightarrow> 'g) \<Rightarrow> nat \<Rightarrow> nat \<Rightarrow> 'g list list list \<Rightarrow> 'g list list" where
  "mean_over_samples mean T F p =
     map (\<lambda>t. map (\<lambda>f. mean (map (\<lambda>row. row ! t ! f) p)) [0..<F]) [0..<T]"

text \<open>
  Line 202, \<^verbatim>\<open>p_da.reindex(sample=new)\<close>: xarray refuses an index with repeated values
  (ValueError); otherwise every new sample coordinate gets the sample stored under that
  coordinate, or NaN when the old index has no such coordinate.
\<close>

definition reindex ::
  "int list \<Rightarrow> int list \<Rightarrow> 'g list list \<Rightarrow> 'g list list list \<Rightarrow> error + 'g list list list" where
  "reindex old new nan_sample b =
     (if \<not> distinct old then Inl ValueError
      else Inr (map (\<lambda>c. if c \<in> set old then b ! first_index old c else nan_sample) new))"

text \<open>
  Line 207, \<^verbatim>\<open>p_da[-es:] = np.concatenate([p_mean[np.newaxis, ...]] * es)\<close>. The index is
  on the first axis of the labelled array, the sample axis; the value has \<open>es\<close> samples,
  each equal to \<open>p_mean\<close>. \<^verbatim>\<open>np.concatenate\<close> of no array raises ValueError, and so does
  the assignment when the buffer has fewer than \<open>es\<close> samples (the slice is then the whole
  buffer, to which \<open>es\<close> samples do not broadcast; there is at least one sample here).
\<close>

definition impute_write :: "nat \<Rightarrow> 'g list list \<Rightarrow> 'g list list list \<Rightarrow> error + 'g list list list" where
  "impute_write es p_mean b =
     (if es = 0 then Inl ValueError
      else if length b < es then Inl ValueError
      else Inr (take (length b - es) b @ replicate es p_mean))"

text \<open>
  \<^verbatim>\<open>.loc\<close> with one label or a list of labels on a label axis: the positions of the
  labels, KeyError for a label the axis does not have. (Axes with repeated labels are not
  modelled: the position is that of the first occurrence.)
\<close>

definition label_index :: "string list \<Rightarrow> string \<Rightarrow> error + nat" where
  "label_index axis l = (if l \<in> set axis then Inr (first_index axis l) else Inl KeyError)"

fun label_indices :: "string list \<Rightarrow> string list \<Rightarrow> error + nat list" where
  "label_indices axis [] = Inr []"
| "label_indices axis (l # ls) =
     (case label_index axis l of
        Inl e \<Rightarrow> Inl e
      | Inr i \<Rightarrow> (case label_indices axis ls of Inl e \<Rightarrow> Inl e | Inr is \<Rightarrow> Inr (i # is)))"

text \<open>
  Lines 211-214: in the last \<open>es\<close> samples of the buffer (\<^verbatim>\<open>[-es:]\<close>, which is every
  sample when \<open>es\<close> is 0 or exceeds their number), the feature at position \<open>sol\<close> gets, at
  input time step \<open>n\<close>, the insolation at the sample's coordinate plus \<open>n * dt\<close>.
\<close>

definition insolation_write ::
  "(int \<Rightarrow> 'g) \<Rightarrow> int \<Rightarrow> nat \<Rightarrow> nat \<Rightarrow> int list \<Rightarrow> 'g list list list \<Rightarrow> 'g list list list" where
  "insolation_write ins delta es sol coords b =
     map (\<lambda>i. if (if es = 0 then 0 else length b - es) \<le> i
               then map (\<lambda>n. (b ! i ! n)[sol := ins (coords ! i + int n * delta)])
                      [0..<length (b ! i)]
               else b ! i)
       [0..<length b]"

text \<open>
  One feature of the feed-back of lines 218-227: in every sample, the buffer's time steps
  \<open>t_in, \<dots>, t_in + count - 1\<close> of the feature at position \<open>a\<close> get the prediction's time
  steps \<open>t_out, \<dots>, t_out + count - 1\<close> of the feature at position \<open>c\<close>.
\<close>

definition write_feature ::
  "nat \<Rightarrow> nat \<Rightarrow> nat \<Rightarrow> 'g list list list \<Rightarrow> nat \<times> nat \<Rightarrow> 'g list list list \<Rightarrow> 'g list list list" where
  "write_feature t_in t_out count r ac b =
     map (\<lambda>i. map (\<lambda>t. if t_in \<le> t \<and> t < t_in + count
                       then (b ! i ! t)[fst ac := r ! i ! (t - t_in + t_out) ! snd ac]
                       else b ! i ! t)
                 [0..<length (b ! i)])
       [0..<length b]"

text \<open>
  Lines 218-227 for the overlap labels at the positions \<open>acs\<close> (input position, output
  position). Keeping the inputs, the last \<open>es\<close> input time steps take the prediction's
  time steps; otherwise all \<open>n_in\<close> input time steps take the first \<open>n_in\<close> time steps of
  the prediction with \<^verbatim>\<open>prefer_first_times\<close>, its last \<open>n_in\<close> without.
\<close>

definition feed_back ::
  "bool \<Rightarrow> bool \<Rightarrow> nat \<Rightarrow> nat \<Rightarrow> nat \<Rightarrow> (nat \<times> nat) list \<Rightarrow> 'g list list list
     \<Rightarrow> 'g list list list \<Rightarrow> 'g list list list" where
  "feed_back keep_inputs prefer_first_times es n_in n_out acs r b =
     (if keep_inputs then foldl (\<lambda>b ac. write_feature (n_in - es) 0 es r ac b) b acs
      else if prefer_first_times then foldl (\<lambda>b ac. write_feature 0 0 n_in r ac b) b acs
      else foldl (\<lambda>b ac. write_feature 0 (n_out - n_in) n_in r ac b) b acs)"

text \<open>
  The state of the loop: the sample coordinates and the values of the rolling input
  buffer \<^verbatim>\<open>p_da\<close>, and the predictions stored in \<^verbatim>\<open>result\<close> so far, each laid out as
  (sample, output time step, feature).
\<close>

record 'g loop_state =
  p_coords :: "int list"
  p_cells :: "'g list list list"
  results :: "'g list list list list"

text \<open>
  One pass of the loop body, lines 189-227, after the call of the model has been
  recorded: the prediction from the buffer, relabelled; the buffer re-indexed to the
  advanced sample coordinates; the imputation; the insolation; the feed-back.
\<close>

definition predict_step ::
  "estimator \<Rightarrow> 'g forecast_env \<Rightarrow> bool \<Rightarrow> bool \<Rightarrow> 'g list list option \<Rightarrow> 'g loop_state
     \<Rightarrow> error + 'g loop_state" where
  "predict_step e env impute prefer_first_times p_mean st =
     (let n_in = input_time_steps e; n_out = output_time_steps e;
          (keep_inputs, es, in_times) = step_sizes n_in n_out prefer_first_times;
          in_labels = the (varlev (input_sel e));
          out_labels = the (varlev (output_sel e));
          overlap = the (varlev (outputs_in_inputs e));
          n = length (generate_p env);
          out = run_model env (flatten_time (p_cells st))
      in (case reshape_time n n_out out of
              Inl err \<Rightarrow> Inl err
            | Inr r0 \<Rightarrow>
                (case data_array (length (samples env)) n_out (length out_labels) r0 of
                   Inl err \<Rightarrow> Inl err
                 | Inr r \<Rightarrow>
                     (let r_coords = map (\<lambda>c. c + int es * dt e) (samples env)
                      in (case reindex (p_coords st) r_coords
                                 (replicate n_in (replicate (length in_labels) (nan_grid env)))
                                 (p_cells st) of
                            Inl err \<Rightarrow> Inl err
                          | Inr b1 \<Rightarrow>
                              (case (if impute then impute_write es (the p_mean) b1 else Inr b1) of
                                 Inl err \<Rightarrow> Inl err
                               | Inr b2 \<Rightarrow>
                                   (case (if add_insolation e
                                          then (case label_index in_labels ''SOL'' of
                                                  Inl err \<Rightarrow> Inl err
                                                | Inr sol \<Rightarrow>
                                                    Inr (insolation_write (insolation_at env) (dt e)
                                                           es sol r_coords b2))
                                          else Inr b2) of
                                      Inl err \<Rightarrow> Inl err
                                    | Inr b3 \<Rightarrow>
                                        (case label_indices in_labels overlap of
                                           Inl err \<Rightarrow> Inl err
                                         | Inr as \<Rightarrow>
                                             (case label_indices out_labels overlap of
                                                Inl err \<Rightarrow> Inl err
                                              | Inr cs \<Rightarrow>
                                                  Inr \<lparr>p_coords = r_coords,
                                                       p_cells =
                                                         feed_back keep_inputs prefer_first_times
                                                           es n_in n_out (zip as cs) r b3,
                                                       results = results st @ [r]\<rparr>)))))))))"

text \<open>
  The loop \<^verbatim>\<open>for s in range(steps)\<close>, with the record of the calls made: every pass starts
  with a call of the model; an exception ends the loop.
\<close>

fun predict_loop ::
  "estimator \<Rightarrow> 'g forecast_env \<Rightarrow> bool \<Rightarrow> bool \<Rightarrow> 'g list list option \<Rightarrow> nat
     \<Rightarrow> event list \<Rightarrow> 'g loop_state \<Rightarrow> event list \<times> (error + 'g loop_state)" where
  "predict_loop e env impute prefer_first_times p_mean 0 evs st = (evs, Inr st)"
| "predict_loop e env impute prefer_first_times p_mean (Suc k) evs st =
     (case predict_step e env impute prefer_first_times p_mean st of
        Inl err \<Rightarrow> (evs @ [ModelPredict], Inl err)
      | Inr st' \<Rightarrow>
          predict_loop e env impute prefer_first_times p_mean k (evs @ [ModelPredict]) st')"

text \<open>
  \<^verbatim>\<open>np.arange(start, stop, step)\<close> on integers (the time increments are integer counts of
  a time unit): \<open>\<lceil>(stop - start) / step\<rceil>\<close> values from \<open>start\<close> in steps of \<open>step\<close>, none
  when that number is negative; a step of 0 raises ZeroDivisionError.
\<close>

definition arange :: "int \<Rightarrow> int \<Rightarrow> int \<Rightarrow> error + int list" where
  "arange start stop step =
     (if step = 0 then Inl ZeroDivisionError
      else Inr (map (\<lambda>i. start + int i * step) [0..<nat (- ((start - stop) div step))]))"

text \<open>
  A labelled array as built at lines 231-263: the coordinates of its axes and its
  values, one frame per position of the leading axis \<^verbatim>\<open>f_hour\<close>. With \<^verbatim>\<open>keep_time_dim\<close>
  a frame is laid out as (time, time step, feature) and the array has the coordinate
  \<^verbatim>\<open>time_step\<close>; otherwise a frame is laid out as (time, feature).
\<close>

record 'f labelled_forecast =
  f_hour :: "int list"
  time :: "int list"
  time_step :: "nat list option"
  varlev_axis :: "string list"
  frames :: "'f list"

text \<open>
  Lines 231-245, with \<^verbatim>\<open>keep_time_dim\<close>: every prediction is a frame. The
  \<^verbatim>\<open>xr.DataArray\<close> constructor raises ValueError when the number of \<^verbatim>\<open>f_hour\<close>
  coordinates differs from the length of the leading axis.
\<close>

definition assemble_steps ::
  "estimator \<Rightarrow> 'g forecast_env \<Rightarrow> nat \<Rightarrow> bool \<Rightarrow> 'g list list list list
     \<Rightarrow> error + 'g list list list labelled_forecast" where
  "assemble_steps e env steps prefer_first_times res =
     (let n_in = input_time_steps e; n_out = output_time_steps e;
          (keep_inputs, es, in_times) = step_sizes n_in n_out prefer_first_times
      in (case arange (dt e) ((int steps * int es + 1) * dt e) (int es * dt e) of
            Inl err \<Rightarrow> Inl err
          | Inr hours \<Rightarrow>
              if length hours \<noteq> length res then Inl ValueError
              else Inr \<lparr>f_hour = hours,
                        time = map (\<lambda>c. c + (int n_in - 1) * dt e) (samples env),
                        time_step = Some [0..<n_out],
                        varlev_axis = the (varlev (output_sel e)),
                        frames = res\<rparr>))"

text \<open>
  Lines 231-232 and 246-263, without \<^verbatim>\<open>keep_time_dim\<close>: the predictions are cut to their
  first \<open>es\<close> time steps when inputs are discarded and the first times preferred; the
  time-step axis is moved in front of the sample axis and merged with the step axis. The
  constructor raises ValueError as above.
\<close>

definition assemble_series ::
  "estimator \<Rightarrow> 'g forecast_env \<Rightarrow> nat \<Rightarrow> bool \<Rightarrow> 'g list list list list
     \<Rightarrow> error + 'g list list labelled_forecast" where
  "assemble_series e env steps prefer_first_times res =
     (let n_in = input_time_steps e; n_out = output_time_steps e;
          (keep_inputs, es, in_times) = step_sizes n_in n_out prefer_first_times;
          cut = (if \<not> keep_inputs \<and> prefer_first_times then map (map (take es)) res else res);
          merged = concat (map (\<lambda>r. map (\<lambda>t. map (\<lambda>row. row ! t) r) [0..<length (hd r)]) cut)
      in (case arange (dt e) ((int steps * int es + 1) * dt e) (dt e) of
            Inl err \<Rightarrow> Inl err
          | Inr hours \<Rightarrow>
              if length hours \<noteq> length merged then Inl ValueError
              else Inr \<lparr>f_hour = hours,
                        time = map (\<lambda>c. c + (int n_in - 1) * dt e) (samples env),
                        time_step = None,
                        varlev_axis = the (varlev (output_sel e)),
                        frames = merged\<rparr>))"

text \<open>
  The array returned: one of the two labelled arrays for a dataset with compound labels,
  and for one with separate axes the array laid out as (f\_hour, time, variable, level),
  given by the coordinates of these four axes and its values.
\<close>

datatype 'g forecast =
  WithTimeStep "'g list list list labelled_forecast"
| Series "'g list list labelled_forecast"
| ByVariableLevel "int list" "int list" "string list" "int list" "'g list list list list"

text \<open>
  Lines 265-273 with \<^verbatim>\<open>keep_time_dim\<close>. With compound labels the array is returned as it
  is. With separate axes the compound-label axis is unstacked over the variables and
  levels of the output selection, and the result is to be transposed to the six axes
  \<^verbatim>\<open>f_hour, time, variable, level, lat, lon\<close>; the unstacked array has the seventh axis
  \<^verbatim>\<open>time_step\<close>, which the transposition does not list: xarray raises ValueError.
\<close>

definition expand_steps ::
  "estimator \<Rightarrow> 'g list list list labelled_forecast \<Rightarrow> error + 'g forecast" where
  "expand_steps e res =
     (if uses_varlev e then Inr (WithTimeStep res)
      else
        (let var = the (variable (output_sel e)); lev = the (level (output_sel e));
             by_feature = map (\<lambda>f. map (map (map (\<lambda>cell. cell ! f))) (frames res))
                            [0..<length (varlev_axis res)]
         in (case unstack_varlev var lev by_feature of
               Inl err \<Rightarrow> Inl err
             | Inr u \<Rightarrow> Inl ValueError)))"

text \<open>
  Lines 265-273 without \<^verbatim>\<open>keep_time_dim\<close>: with separate axes the array is unstacked and
  transposed to (f\_hour, time, variable, level).
\<close>

definition expand_series ::
  "estimator \<Rightarrow> 'g list list labelled_forecast \<Rightarrow> error + 'g forecast" where
  "expand_series e res =
     (if uses_varlev e then Inr (Series res)
      else
        (let var = the (variable (output_sel e)); lev = the (level (output_sel e));
             by_feature = map (\<lambda>f. map (map (\<lambda>cell. cell ! f)) (frames res))
                            [0..<length (varlev_axis res)]
         in (case unstack_varlev var lev by_feature of
               Inl err \<Rightarrow> Inl err
             | Inr u \<Rightarrow>
                 Inr (ByVariableLevel (f_hour res) (time res) (variable_axis u) (level_axis u)
                        (map (\<lambda>h. map (\<lambda>i. map (\<lambda>v. map (\<lambda>l. slabs u ! v ! l ! h ! i)
                                                         [0..<length (level_axis u)])
                                              [0..<length (variable_axis u)])
                                    [0..<length (time res)])
                           [0..<length (f_hour res)])))))"

text \<open>
  \<^verbatim>\<open>predict(steps, impute, keep_time_dim, prefer_first_times)\<close>: the record of the calls
  to the generator and the model, and the exception raised or the array returned. The
  check of \<^verbatim>\<open>steps\<close> comes first; then the generator's data are loaded, reshaped and
  labelled, the mean is taken when imputing, the loop runs, and the result is assembled
  and expanded.
\<close>

definition predict ::
  "estimator \<Rightarrow> 'g forecast_env \<Rightarrow> int \<Rightarrow> bool \<Rightarrow> bool \<Rightarrow> bool
     \<Rightarrow> event list \<times> (error + 'g forecast)" where
  "predict e env steps impute keep_time_dim prefer_first_times =
     (if steps < 1 then ([], Inl ValueError)
      else
        (let n_in = input_time_steps e;
             in_labels = the (varlev (input_sel e))
         in (case reshape_time (length (generate_p env)) n_in (generate_p env) of
               Inl err \<Rightarrow> ([Generate], Inl err)
             | Inr p0 \<Rightarrow>
                 (case data_array (length (samples env)) n_in (length in_labels) p0 of
                    Inl err \<Rightarrow> ([Generate], Inl err)
                  | Inr p \<Rightarrow>
                      (let p_mean = (if impute
                                     then Some (mean_over_samples (mean_grids env) n_in
                                                  (length in_labels) p)
                                     else None)
                       in (case predict_loop e env impute prefer_first_times p_mean (nat steps)
                                   [Generate]
                                   \<lparr>p_coords = samples env, p_cells = p, results = []\<rparr> of
                             (evs, Inl err) \<Rightarrow> (evs, Inl err)
                           | (evs, Inr st) \<Rightarrow>
                               (if keep_time_dim then
                                  (case assemble_steps e env (nat steps) prefer_first_times
                                          (results st) of
                                     Inl err \<Rightarrow> (evs, Inl err)
                                   | Inr res \<Rightarrow> (evs, expand_steps e res))
                                else
                                  (case assemble_series e env (nat steps) prefer_first_times
                                          (results st) of
                                     Inl err \<Rightarrow> (evs, Inl err)
                                   | Inr res \<Rightarrow> (evs, expand_series e res)))))))))"

text \<open>
  The consistency between estimator, generator and model that \<^verbatim>\<open>predict\<close> leaves to its
  caller, for given \<^verbatim>\<open>impute\<close> and \<^verbatim>\<open>prefer_first_times\<close>: at least one sample and one
  input and output time step; a time increment other than 0; sample coordinates without
  repetition; generator data with one row per sample, of one grid per input time step and
  input label; a model that answers such data with one row per sample, of one grid per
  output time step and output label; overlap labels that are input and output labels;
  the label \<^verbatim>\<open>'SOL'\<close> among the input labels when insolation is added; at least \<open>es\<close>
  samples when imputing; and, with separate axes, output variables and output levels
  without repetition, one pair of them per output label.
\<close>

definition valid_forecast :: "estimator \<Rightarrow> 'g forecast_env \<Rightarrow> bool \<Rightarrow> bool \<Rightarrow> bool" where
  "valid_forecast e env impute prefer_first_times =
     (let n_in = input_time_steps e; n_out = output_time_steps e;
          n = length (samples env);
          in_labels = the (varlev (input_sel e));
          out_labels = the (varlev (output_sel e));
          overlap = the (varlev (outputs_in_inputs e));
          es = fst (snd (step_sizes n_in n_out prefer_first_times))
      in 0 < n \<and> 0 < n_in \<and> 0 < n_out \<and> dt e \<noteq> 0 \<and> distinct (samples env) \<and>
         length (generate_p env) = n \<and>
         list_all (\<lambda>row. length row = n_in * length in_labels) (generate_p env) \<and>
         (\<forall>x. length x = n \<and> list_all (\<lambda>row. length row = n_in * length in_labels) x \<longrightarrow>
              length (run_model env x) = n \<and>
              list_all (\<lambda>row. length row = n_out * length out_labels) (run_model env x)) \<and>
         list_all (\<lambda>l. l \<in> set in_labels \<and> l \<in> set out_labels) overlap \<and>
         (add_insolation e \<longrightarrow> ''SOL'' \<in> set in_labels) \<and>
         (impute \<longrightarrow> es \<le> n) \<and>
         (\<not> uses_varlev e \<longrightarrow>
            distinct (the (variable (output_sel e))) \<and> distinct (the (level (output_sel e))) \<and>
            length (the (variable (output_sel e))) * length (the (level (output_sel e)))
              = length out_labels))"

section \<open>Results on delete\_nan\_samples\<close>

subsection \<open>Reshaping, bad indices and deletion\<close>

lemma reshape_samples_wf:
  assumes "wf_ndarray a" "shape a = n # rest" "0 < n"
  shows "reshape_samples a = Inr (map (flat_sample a) [0..<n])"
  using assms by (simp add: reshape_samples_def wf_ndarray_def flat_sample_def Let_def)

lemma reshape_samples_empty: "shape a = 0 # rest \<Longrightarrow> reshape_samples a = Inl ValueError"
  by (simp add: reshape_samples_def)

lemma set_where_rows:
  "set (where_rows m) = {i. i < length m \<and> True \<in> set (m ! i)}"
  by (auto simp: where_rows_def)

lemma set_bad_indices:
  "set (bad_indices thr rows) = {i. i < length rows \<and> sample_missing thr (rows ! i)}"
  by (cases thr) (auto simp: bad_indices_def set_where_rows sample_missing_def)

lemma np_delete_in_bounds:
  assumes "\<forall>i \<in> set bad. i < length rows"
  shows "np_delete rows bad =
           Inr (map (\<lambda>i. rows ! i) (filter (\<lambda>i. i \<notin> set bad) [0..<length rows]))"
  using assms by (auto simp: np_delete_def)

lemma filter_keep_eq:
  "filter (\<lambda>i. i \<notin> set (bad_indices thr (map (flat_sample p) [0..<n]) @
                          bad_indices thr (map (flat_sample t) [0..<n]))) [0..<n]
   = kept_indices thr p t n"
  unfolding kept_indices_def
  by (rule filter_cong) (auto simp: set_bad_indices)

lemma map_nth_kept:
  "map (\<lambda>i. map f [0..<n] ! i) (kept_indices thr p t n) = map f (kept_indices thr p t n)"
  by (rule map_cong) (auto simp: kept_indices_def)

lemma reduce_samples_nonempty:
  assumes "wf_ndarray p" "wf_ndarray t" "shape p = n # ps" "shape t = n # ts" "0 < n"
  shows "reduce_samples p t thr =
           Inr (\<lparr>shape = length (kept_indices thr p t n) # ps,
                 elems = concat (map (flat_sample p) (kept_indices thr p t n))\<rparr>,
                \<lparr>shape = length (kept_indices thr p t n) # ts,
                 elems = concat (map (flat_sample t) (kept_indices thr p t n))\<rparr>)"
proof -
  have rp: "reshape_samples p = Inr (map (flat_sample p) [0..<n])"
    using assms by (simp add: reshape_samples_wf)
  have rt: "reshape_samples t = Inr (map (flat_sample t) [0..<n])"
    using assms by (simp add: reshape_samples_wf)
  let ?bad = "bad_indices thr (map (flat_sample p) [0..<n]) @
              bad_indices thr (map (flat_sample t) [0..<n])"
  have bnd: "\<forall>i \<in> set ?bad. i < n"
    by (auto simp: set_bad_indices)
  have dp: "np_delete (map (flat_sample p) [0..<n]) ?bad =
              Inr (map (flat_sample p) (kept_indices thr p t n))"
    using bnd np_delete_in_bounds[of ?bad "map (flat_sample p) [0..<n]"]
    by (simp add: filter_keep_eq map_nth_kept del: set_append)
  have dt: "np_delete (map (flat_sample t) [0..<n]) ?bad =
              Inr (map (flat_sample t) (kept_indices thr p t n))"
    using bnd np_delete_in_bounds[of ?bad "map (flat_sample t) [0..<n]"]
    by (simp add: filter_keep_eq map_nth_kept del: set_append)
  show ?thesis
    using assms(3,4)
    by (simp add: reduce_samples_def rp rt dp dt restore_shape_def Let_def del: set_append)
qed

lemma reduce_samples_empty:
  "shape p = 0 # ps \<Longrightarrow> reduce_samples p t thr = Inl ValueError"
  by (simp add: reduce_samples_def reshape_samples_empty)

lemma fill_large_shape: "shape (fill_large a) = shape a"
  by (simp add: fill_large_def)

lemma wf_fill_large: "wf_ndarray (fill_large a) = wf_ndarray a"
  by (simp add: fill_large_def wf_ndarray_def)

lemma fill_large_no_large: "\<forall>x \<in> set (elems (fill_large a)). \<not> is_large x"
  by (auto simp: fill_large_def)

lemma fill_large_fixed:
  assumes "\<forall>x \<in> set (elems a). \<not> is_large x"
  shows "fill_large a = a"
proof -
  have "map (\<lambda>x. if is_large x then NaN else x) (elems a) = elems a"
    using assms by (induction "elems a" arbitrary: a) (auto simp: map_idI)
  then show ?thesis by (simp add: fill_large_def)
qed

subsection \<open>Samples of a stacked selection\<close>

lemma concat_chunks: "concat (map (\<lambda>i. take w (drop (i * w) xs)) [0..<n]) = take (n * w) xs"
proof (induction n)
  case 0
  then show ?case by simp
next
  case (Suc n)
  have "take (n * w + w) xs = take (n * w) xs @ take w (drop (n * w) xs)"
    by (rule take_add)
  with Suc show ?case by (simp add: add.commute)
qed

lemma chunk_of_concat:
  assumes "\<forall>r \<in> set rows. length r = w" "i < length rows"
  shows "take w (drop (i * w) (concat rows)) = rows ! i"
  using assms
proof (induction rows arbitrary: i)
  case Nil
  then show ?case by simp
next
  case (Cons r rows)
  show ?case
  proof (cases i)
    case 0
    with Cons.prems show ?thesis by simp
  next
    case (Suc j)
    with Cons show ?thesis by simp
  qed
qed

lemma length_flat_sample:
  assumes "wf_ndarray a" "shape a = n # rest" "i < n"
  shows "length (flat_sample a i) = prod_list rest"
proof -
  have "Suc i * prod_list rest \<le> n * prod_list rest"
    using assms(3) by (intro mult_le_mono1) simp
  then show ?thesis
    using assms by (simp add: flat_sample_def wf_ndarray_def)
qed

lemma set_flat_sample: "set (flat_sample a i) \<subseteq> set (elems a)"
  unfolding flat_sample_def
  by (meson set_take_subset set_drop_subset subset_trans)

lemma kept_indices_ok:
  "i \<in> set (kept_indices thr p t n) \<Longrightarrow>
     \<not> sample_missing thr (flat_sample p i) \<and> \<not> sample_missing thr (flat_sample t i)"
  by (simp add: kept_indices_def)

lemma flat_sample_stacked:
  assumes "wf_ndarray a" "shape a = n # rest" "\<forall>i \<in> set ks. i < n" "j < length ks"
  shows "flat_sample \<lparr>shape = m # rest, elems = concat (map (flat_sample a) ks)\<rparr> j
         = flat_sample a (ks ! j)"
proof -
  have "\<forall>r \<in> set (map (flat_sample a) ks). length r = prod_list rest"
    using assms(1,2,3) by (auto simp: length_flat_sample)
  from chunk_of_concat[OF this, of j] assms(4) show ?thesis
    by (simp add: flat_sample_def)
qed

lemma wf_stacked:
  assumes "wf_ndarray a" "shape a = n # rest" "\<forall>i \<in> set ks. i < n"
  shows "wf_ndarray \<lparr>shape = length ks # rest, elems = concat (map (flat_sample a) ks)\<rparr>"
proof -
  have "\<forall>r \<in> set (map (flat_sample a) ks). length r = prod_list rest"
    using assms by (auto simp: length_flat_sample)
  then have "length (concat (map (flat_sample a) ks)) = length ks * prod_list rest"
    by (induction ks) auto
  then show ?thesis by (simp add: wf_ndarray_def)
qed

lemma filter_all: "(\<forall>x \<in> set xs. P x) \<Longrightarrow> filter P xs = xs"
  by (induction xs) auto

lemma stacked_fixpoint:
  assumes "wf_ndarray p" "wf_ndarray t" "shape p = n # ps" "shape t = n # ts"
    and "ks = kept_indices thr p t n" and "ks \<noteq> []"
    and "p' = \<lparr>shape = length ks # ps, elems = concat (map (flat_sample p) ks)\<rparr>"
    and "t' = \<lparr>shape = length ks # ts, elems = concat (map (flat_sample t) ks)\<rparr>"
  shows "reduce_samples p' t' thr = Inr (p', t')"
proof -
  have bnd: "\<forall>i \<in> set ks. i < n"
    using assms(5) by (simp add: kept_indices_def)
  have wp: "wf_ndarray p'" and wt: "wf_ndarray t'"
    using wf_stacked[OF assms(1,3) bnd] wf_stacked[OF assms(2,4) bnd] assms(7,8) by simp_all
  have sp: "shape p' = length ks # ps" and st: "shape t' = length ks # ts"
    using assms(7,8) by simp_all
  have pos: "0 < length ks" using assms(6) by simp
  have fp: "\<And>j. j < length ks \<Longrightarrow> flat_sample p' j = flat_sample p (ks ! j)"
    using flat_sample_stacked[OF assms(1,3) bnd] assms(7) by simp
  have ft: "\<And>j. j < length ks \<Longrightarrow> flat_sample t' j = flat_sample t (ks ! j)"
    using flat_sample_stacked[OF assms(2,4) bnd] assms(8) by simp
  have all: "kept_indices thr p' t' (length ks) = [0..<length ks]"
    unfolding kept_indices_def
  proof (rule filter_all, rule ballI)
    fix j assume "j \<in> set [0..<length ks]"
    then have j: "j < length ks" by simp
    then have "ks ! j \<in> set (kept_indices thr p t n)"
      using assms(5) by simp
    from kept_indices_ok[OF this] fp[OF j] ft[OF j]
    show "\<not> sample_missing thr (flat_sample p' j) \<and> \<not> sample_missing thr (flat_sample t' j)"
      by simp
  qed
  have ep: "concat (map (flat_sample p') [0..<length ks]) = elems p'"
    using wp sp concat_chunks[of "prod_list ps" "elems p'" "length ks"]
    by (simp add: flat_sample_def[abs_def] wf_ndarray_def)
  have et: "concat (map (flat_sample t') [0..<length ks]) = elems t'"
    using wt st concat_chunks[of "prod_list ts" "elems t'" "length ks"]
    by (simp add: flat_sample_def[abs_def] wf_ndarray_def)
  show ?thesis
    using reduce_samples_nonempty[OF wp wt sp st pos, of thr] sp st
    by (simp add: all ep et)
qed

text \<open>
  Applying the function again to what it returned gives the same arrays, as long as it
  returned at least one sample.
\<close>

lemma delete_nan_samples_twice:
  assumes "wf_ndarray p" "wf_ndarray t" "shape p = n # ps" "shape t = n # ts"
    and "snd (delete_nan_samples p t lfv thr) = Inr (p', t')"
    and "shape p' \<noteq> 0 # ps"
  shows "snd (delete_nan_samples p' t' lfv thr) = Inr (p', t')"
proof -
  define p0 where "p0 = (if lfv then fill_large p else p)"
  define t0 where "t0 = (if lfv then fill_large t else t)"
  define ks where "ks = kept_indices thr p0 t0 n"
  have ok: "threshold_ok thr"
    using assms(5) by (auto simp: delete_nan_samples_def split: if_splits)
  have red: "reduce_samples p0 t0 thr = Inr (p', t')"
    using assms(5) ok by (simp add: delete_nan_samples_def p0_def t0_def Let_def)
  have w0: "wf_ndarray p0" "wf_ndarray t0" "shape p0 = n # ps" "shape t0 = n # ts"
    using assms(1-4) by (simp_all add: p0_def t0_def wf_fill_large fill_large_shape)
  have npos: "0 < n"
  proof (rule ccontr)
    assume "\<not> 0 < n"
    then have "shape p0 = 0 # ps" using w0(3) by simp
    from reduce_samples_empty[OF this] red show False by simp
  qed
  have p': "p' = \<lparr>shape = length ks # ps, elems = concat (map (flat_sample p0) ks)\<rparr>"
    and t': "t' = \<lparr>shape = length ks # ts, elems = concat (map (flat_sample t0) ks)\<rparr>"
    using red reduce_samples_nonempty[OF w0 npos, of thr] by (simp_all add: ks_def)
  have ne: "ks \<noteq> []"
    using assms(6) p' by auto
  have fixp: "reduce_samples p' t' thr = Inr (p', t')"
    by (rule stacked_fixpoint[OF w0 ks_def ne p' t'])
  have sub: "set (elems p') \<subseteq> set (elems p0)" "set (elems t') \<subseteq> set (elems t0)"
    using set_flat_sample by (auto simp: p' t')
  have "lfv \<Longrightarrow> fill_large p' = p' \<and> fill_large t' = t'"
  proof -
    assume lfv
    then have "\<forall>x \<in> set (elems p0). \<not> is_large x" "\<forall>x \<in> set (elems t0). \<not> is_large x"
      using fill_large_no_large by (simp_all add: p0_def t0_def)
    with sub have "\<forall>x \<in> set (elems p'). \<not> is_large x" "\<forall>x \<in> set (elems t'). \<not> is_large x"
      by auto
    then show ?thesis by (simp add: fill_large_fixed)
  qed
  with fixp ok show ?thesis
    by (cases lfv) (simp_all add: delete_nan_samples_def Let_def)
qed

subsection \<open>Which samples are removed\<close>



subsection \<open>Applying the function twice\<close>

text \<open>
  Claim C8, at an input where the first application removes every sample: one sample
  whose predictor value is NaN. The first call returns two arrays without samples (of
  shape \<open>(0, 1)\<close>); the call on these raises ValueError instead of returning them again.
\<close>

theorem delete_nan_samples_second_call_raises:
  "snd (delete_nan_samples \<lparr>shape = [1, 1], elems = [NaN]\<rparr>
          \<lparr>shape = [1, 1], elems = [Fin 1]\<rparr> False None)
     = Inr (\<lparr>shape = [0, 1], elems = []\<rparr>, \<lparr>shape = [0, 1], elems = []\<rparr>)
   \<and> snd (delete_nan_samples \<lparr>shape = [0, 1], elems = []\<rparr>
            \<lparr>shape = [0, 1], elems = []\<rparr> False None)
     = Inl ValueError"
  by (simp add: delete_nan_samples_def threshold_ok_def reduce_samples_def reshape_samples_def
      bad_indices_def where_rows_def np_delete_def restore_shape_def Let_def)

subsection \<open>The caller's arrays\<close>



section \<open>Results on the construction of an estimator\<close>

subsection \<open>Compound labels and their expansion\<close>

lemma zip_meshgrid:
  "zip (concat (snd (meshgrid levs vars))) (concat (fst (meshgrid levs vars)))
     = List.product vars levs"
proof (induction vars)
  case Nil
  then show ?case by (simp add: meshgrid_def)
next
  case (Cons v vars)
  have "zip (map (\<lambda>_. v) levs) levs = map (Pair v) levs"
    by (induction levs) auto
  with Cons show ?case by (simp add: meshgrid_def)
qed

lemma flatten_varlev_product:
  "flatten_varlev vars levs = map (\<lambda>(v, l). v @ ''/'' @ str_int l) (List.product vars levs)"
  using zip_meshgrid[of levs vars]
  by (simp add: flatten_varlev_def split_beta)

lemma first_index_nth:
  "distinct ys \<Longrightarrow> k < length ys \<Longrightarrow> first_index ys (ys ! k) = k"
proof (induction ys arbitrary: k)
  case Nil
  then show ?case by simp
next
  case (Cons y ys)
  then show ?case by (cases k) auto
qed

lemma chunk_div: "j < (w::nat) \<Longrightarrow> (i * w + j) div w = i"
  by simp

lemma chunk_mod: "j < (w::nat) \<Longrightarrow> (i * w + j) mod w = j"
  by simp

lemma product_index:
  assumes "i < length vars" "j < length levs"
  shows "i * length levs + j < length (List.product vars levs) \<and>
         List.product vars levs ! (i * length levs + j) = (vars ! i, levs ! j)"
proof -
  have "i * length levs + j < Suc i * length levs"
    using assms(2) by simp
  also have "\<dots> \<le> length vars * length levs"
    using assms(1) by (intro mult_le_mono1) simp
  finally have k: "i * length levs + j < length vars * length levs" .
  have d: "(i * length levs + j) div length levs = i"
    using assms(2) by (rule chunk_div)
  have m: "(i * length levs + j) mod length levs = j"
    using assms(2) by (rule chunk_mod)
  from k d m show ?thesis
    by (simp add: product_nth)
qed

lemma flatten_varlev_nth:
  assumes "i < length vars" "j < length levs"
  shows "flatten_varlev vars levs ! (i * length levs + j) = vars ! i @ ''/'' @ str_int (levs ! j)"
  using product_index[OF assms]
  by (simp add: flatten_varlev_product)



subsection \<open>The overlap\<close>

lemma keep_in_subset: "set (keep_in out inp) = set out \<inter> set inp"
  by (auto simp: keep_in_def)

lemma length_keep_in: "length (keep_in out inp) \<le> length out"
  by (simp add: keep_in_def)

lemma length_keep_in_distinct:
  assumes "distinct out"
  shows "length (keep_in out inp) \<le> length inp"
proof -
  have "distinct (keep_in out inp)"
    using assms by (simp add: keep_in_def)
  then have "length (keep_in out inp) = card (set (keep_in out inp))"
    by (simp add: distinct_card)
  also have "\<dots> \<le> card (set inp)"
    by (rule card_mono) (auto simp: keep_in_subset)
  also have "\<dots> \<le> length inp"
    by (rule card_length)
  finally show ?thesis .
qed

lemma fill_from_ds_Some:
  "fill_from_ds sel ds = Inr s \<Longrightarrow> variable s \<noteq> None \<and> level s \<noteq> None"
  by (auto simp: fill_from_ds_def getitem_def split: if_splits option.splits sum.splits)

lemma variable_level_of_Some:
  "variable_level_of c = Inr s \<Longrightarrow> variable s \<noteq> None \<and> level s \<noteq> None"
  by (auto simp: variable_level_of_def getitem_def split: option.splits)

lemma find_output_sel_separate:
  "find_output_sel g = Inr s \<Longrightarrow> \<not> ds_has_varlev_dim g \<Longrightarrow> variable s \<noteq> None \<and> level s \<noteq> None"
  by (auto simp: find_output_sel_def split: if_splits option.splits
      dest: fill_from_ds_Some variable_level_of_Some)

lemma find_input_sel_separate:
  "find_input_sel g = Inr s \<Longrightarrow> \<not> ds_has_varlev_dim g \<Longrightarrow> variable s \<noteq> None \<and> level s \<noteq> None"
  by (auto simp: find_input_sel_def split: if_splits option.splits
      dest: fill_from_ds_Some variable_level_of_Some)

lemma init_overlaps:
  assumes "init m g = Inr e"
  shows "overlap_of (varlev (outputs_in_inputs e)) (varlev (output_sel e)) (varlev (input_sel e)) [''SOL'']
       \<and> overlap_of (variable (outputs_in_inputs e)) (variable (output_sel e)) (variable (input_sel e)) []
       \<and> overlap_of (level (outputs_in_inputs e)) (level (output_sel e)) (level (input_sel e)) []"
proof -
  from assms obtain out0 inp0 ovl where
    o: "find_output_sel g = Inr out0" and i: "find_input_sel g = Inr inp0"
    and v: "find_outputs_in_inputs (ds_has_varlev_dim g)
              (if ds_has_varlev_dim g then out0 else add_varlev out0)
              (if ds_has_varlev_dim g then inp0 else add_varlev inp0) = Inr ovl"
    and e: "e = \<lparr>add_insolation = (case add_insolation_attr g of None \<Rightarrow> False | Some b \<Rightarrow> b),
                 uses_varlev = ds_has_varlev_dim g,
                 has_targets = (ds_targets g \<noteq> None),
                 is_series = (generator_kind g = SeriesDataGenerator),
                 output_sel = (if ds_has_varlev_dim g then out0 else add_varlev out0),
                 input_sel =
                   (if (case add_insolation_attr g of None \<Rightarrow> False | Some b \<Rightarrow> b)
                    then (if ds_has_varlev_dim g then inp0 else add_varlev inp0)
                           \<lparr>varlev := Some (the (varlev (if ds_has_varlev_dim g then inp0 else add_varlev inp0)) @ [''SOL''])\<rparr>
                    else (if ds_has_varlev_dim g then inp0 else add_varlev inp0)),
                 outputs_in_inputs = ovl,
                 dt = ds_sample g ! 1 - ds_sample g ! 0,
                 input_time_steps =
                   (if generator_kind g = SeriesDataGenerator then gen_input_time_steps g else time_dim m),
                 output_time_steps =
                   (if generator_kind g = SeriesDataGenerator then gen_output_time_steps g else time_dim m)\<rparr>"
    by (auto simp: init_def Let_def split: if_splits sum.splits)
  show ?thesis
  proof (cases "ds_has_varlev_dim g")
    case True
    with v show ?thesis
      unfolding e
      by (auto simp: find_outputs_in_inputs_def getitem_def overlap_of_def
          split: option.splits)
  next
    case False
    from find_output_sel_separate[OF o False] find_input_sel_separate[OF i False]
    obtain ov ol iv il where
      "variable out0 = Some ov" "level out0 = Some ol" "variable inp0 = Some iv" "level inp0 = Some il"
      by auto
    with v False show ?thesis
      unfolding e
      by (auto simp: find_outputs_in_inputs_def overlap_of_def add_varlev_def)
  qed
qed

lemma overlap_of_bounds:
  assumes "overlap_of ovl out inp extra" "ovl = Some ov"
  shows "\<exists>ou ip. out = Some ou \<and> inp = Some ip \<and>
           set ov \<subseteq> set ou \<and> set ov \<subseteq> set ip \<and> length ov \<le> length ou \<and>
           card (set ov) \<le> min (length ou) (length ip) \<and>
           (distinct ou \<longrightarrow> length ov \<le> min (length ou) (length ip))"
proof -
  from assms obtain ou i0 where
    ou: "out = Some ou" and ip: "inp = Some i0 \<or> inp = Some (i0 @ extra)"
    and ov: "ov = keep_in ou i0"
    by (auto simp: overlap_of_def)
  from ip obtain ip' where ip': "inp = Some ip'" "set i0 \<subseteq> set ip'" "length i0 \<le> length ip'"
    by auto
  have a: "set ov \<subseteq> set ou" "set ov \<subseteq> set ip'"
    using ov ip'(2) by (auto simp: keep_in_subset)
  have b: "length ov \<le> length ou"
    using ov by (simp add: length_keep_in)
  have c: "distinct ou \<Longrightarrow> length ov \<le> length ip'"
    using ov ip'(3) length_keep_in_distinct[of ou i0] by simp
  have "card (set ov) \<le> card (set ou)" "card (set ov) \<le> card (set ip')"
    using a by (simp_all add: card_mono)
  then have d: "card (set ov) \<le> length ou" "card (set ov) \<le> length ip'"
    using card_length[of ou] card_length[of ip'] by linarith+
  from ou ip'(1) a b c d show ?thesis by simp
qed




section \<open>Results on data\_to\_samples\<close>

lemma fill_variables_foldl:
  assumes "snd ` set vs \<subseteq> set (data_vars rd)"
  shows "fill_variables rd ds ls nv s vs (p, t) =
           Inr (foldl (\<lambda>a (v, var). assign_slab nv (length ls) s v (slab rd ds ls var s) a) p vs,
                foldl (\<lambda>a (v, var). assign_slab nv (length ls) s v (slab rd ds ls var (s + 1)) a) t vs)"
  using assms
proof (induction vs arbitrary: p t)
  case Nil
  then show ?case by simp
next
  case (Cons x vs)
  obtain v var where x: "x = (v, var)" by (cases x)
  with Cons show ?case by simp
qed

lemma assign_slab_again:
  assumes "s < length a"
  shows "assign_slab nv nl s v x a = a[s := (a ! s)[v := x]]"
  using assms by (simp add: assign_slab_def)

lemma foldl_assign_in_row:
  assumes "s < length a"
  shows "foldl (\<lambda>a (v, var). assign_slab nv nl s v (f var) a) a vs =
           a[s := foldl (\<lambda>row (v, var). row[v := f var]) (a ! s) vs]"
  using assms
proof (induction vs arbitrary: a)
  case Nil
  then show ?case by simp
next
  case (Cons x vs)
  obtain v var where x: "x = (v, var)" by (cases x)
  have len: "s < length (a[s := (a ! s)[v := f var]])"
    using Cons.prems by simp
  show ?case
    using Cons.prems Cons.IH[OF len]
    by (simp add: x assign_slab_again)
qed

lemma foldl_write_row:
  assumes "length vars \<le> length row"
  shows "foldl (\<lambda>row (v, var). row[v := f var]) row (zip [0..<length vars] vars)
           = map f vars @ drop (length vars) row"
  using assms
proof (induction vars rule: rev_induct)
  case Nil
  then show ?case by simp
next
  case (snoc x xs)
  have z: "zip [0..<length (xs @ [x])] (xs @ [x]) = zip [0..<length xs] xs @ [(length xs, x)]"
    by simp
  have le: "length xs \<le> length row" and lt: "length xs < length row"
    using snoc.prems by simp_all
  have "(map f xs @ drop (length xs) row)[length xs := f x]
          = map f xs @ (drop (length xs) row)[0 := f x]"
    by (simp add: list_update_append)
  also have "(drop (length xs) row)[0 := f x] = f x # drop (Suc (length xs)) row"
    using lt by (simp add: Cons_nth_drop_Suc[symmetric])
  finally show ?case
    using snoc.IH[OF le] by (simp only: z foldl_append) simp
qed

text \<open>One pass of the inner loop on an array whose row \<open>s\<close> is the first unwritten one.\<close>

lemma write_sample:
  assumes "length done = s" "vars \<noteq> []"
  shows "foldl (\<lambda>a (v, var). assign_slab (length vars) nl s v (f var) a)
           (done @ replicate m (replicate (length vars) (replicate nl None)))
           (zip [0..<length vars] vars)
         = done @ [map f vars] @ replicate (m - 1) (replicate (length vars) (replicate nl None))"
proof -
  let ?fill = "replicate (length vars) (replicate nl None)"
  obtain x xs where vars: "vars = x # xs"
    using assms(2) by (cases vars) auto
  have u: "[0..<Suc (length xs)] = 0 # [Suc 0..<Suc (length xs)]"
    by (rule upt_conv_Cons) simp
  have z: "zip [0..<length vars] vars = (0, x) # zip [1..<length vars] xs"
    by (simp add: vars u del: upt_Suc)
  let ?a = "done @ replicate m ?fill"
  let ?g = "done @ ?fill # replicate (m - 1) ?fill"
  have grow: "(if s < length ?a then ?a else ?a @ replicate (Suc s - length ?a) ?fill) = ?g"
    using assms(1) by (cases m) auto
  have first: "assign_slab (length vars) nl s 0 (f x) ?a = ?g[s := (?g ! s)[0 := f x]]"
    unfolding assign_slab_def Let_def grow ..
  have len: "s < length (?g[s := (?g ! s)[0 := f x]])"
    using assms(1) by simp
  have row: "?g ! s = ?fill"
    using assms(1) by (simp add: nth_append)
  have "foldl (\<lambda>a (v, var). assign_slab (length vars) nl s v (f var) a) ?a
          (zip [0..<length vars] vars)
        = foldl (\<lambda>a (v, var). assign_slab (length vars) nl s v (f var) a)
            (?g[s := (?g ! s)[0 := f x]]) (zip [1..<length vars] xs)"
    by (simp only: z foldl_Cons case_prod_conv first)
  also have "\<dots> = (?g[s := (?g ! s)[0 := f x]])
                [s := foldl (\<lambda>row (v, var). row[v := f var])
                        ((?g[s := (?g ! s)[0 := f x]]) ! s) (zip [1..<length vars] xs)]"
    by (rule foldl_assign_in_row[OF len])
  also have "\<dots> = ?g[s := foldl (\<lambda>row (v, var). row[v := f var]) (?fill[0 := f x])
                            (zip [1..<length vars] xs)]"
  proof -
    have lg: "s < length ?g" using assms(1) by simp
    have "(?g[s := (?g ! s)[0 := f x]]) ! s = ?fill[0 := f x]"
      using lg by (simp only: nth_list_update_eq row)
    then show ?thesis
      by (simp only: list_update_overwrite)
  qed
  also have "foldl (\<lambda>row (v, var). row[v := f var]) (?fill[0 := f x]) (zip [1..<length vars] xs)
               = foldl (\<lambda>row (v, var). row[v := f var]) ?fill (zip [0..<length vars] vars)"
    by (simp only: z foldl_Cons case_prod_conv)
  also have "\<dots> = map f vars"
    using foldl_write_row[of vars ?fill f] by simp
  also have "?g[s := map f vars] = done @ [map f vars] @ replicate (m - 1) ?fill"
    using assms(1) by (simp add: list_update_append)
  finally show ?thesis .
qed

lemma fill_samples_range:
  assumes "set vars \<subseteq> set (data_vars rd)" "vars \<noteq> []"
    and "length done_p = k" "length done_t = k"
  shows "fill_samples rd ds ls vars [k..<k + j]
           (done_p @ replicate m (replicate (length vars) (replicate (length ls) None)),
            done_t @ replicate m (replicate (length vars) (replicate (length ls) None)))
         = Inr (done_p @ map (\<lambda>s. map (\<lambda>var. slab rd ds ls var s) vars) [k..<k + j]
                  @ replicate (m - j) (replicate (length vars) (replicate (length ls) None)),
                done_t @ map (\<lambda>s. map (\<lambda>var. slab rd ds ls var (s + 1)) vars) [k..<k + j]
                  @ replicate (m - j) (replicate (length vars) (replicate (length ls) None)))"
  using assms(3,4)
proof (induction j arbitrary: k done_p done_t m)
  case 0
  then show ?case by simp
next
  case (Suc j)
  let ?fill = "replicate (length vars) (replicate (length ls) None)"
  let ?P = "\<lambda>s. map (\<lambda>var. slab rd ds ls var s) vars"
  let ?T = "\<lambda>s. map (\<lambda>var. slab rd ds ls var (s + 1)) vars"
  have r: "[k..<k + Suc j] = k # [Suc k..<Suc k + j]"
    by (simp add: upt_conv_Cons del: upt_Suc)
  have sub: "snd ` set (zip [0..<length vars] vars) \<subseteq> set (data_vars rd)"
    using assms(1) by (auto dest: set_zip_rightD)
  have inner: "fill_variables rd ds ls (length vars) k (zip [0..<length vars] vars)
                 (done_p @ replicate m ?fill, done_t @ replicate m ?fill)
               = Inr ((done_p @ [?P k]) @ replicate (m - 1) ?fill,
                      (done_t @ [?T k]) @ replicate (m - 1) ?fill)"
    using write_sample[OF Suc.prems(1) assms(2), of "length ls" "\<lambda>var. slab rd ds ls var k" m]
      write_sample[OF Suc.prems(2) assms(2), of "length ls" "\<lambda>var. slab rd ds ls var (k + 1)" m]
    by (simp add: fill_variables_foldl[OF sub])
  have lp: "length (done_p @ [?P k]) = Suc k" and lt: "length (done_t @ [?T k]) = Suc k"
    using Suc.prems by simp_all
  have "fill_samples rd ds ls vars [k..<k + Suc j]
          (done_p @ replicate m ?fill, done_t @ replicate m ?fill)
        = fill_samples rd ds ls vars [Suc k..<Suc k + j]
            ((done_p @ [?P k]) @ replicate (m - 1) ?fill,
             (done_t @ [?T k]) @ replicate (m - 1) ?fill)"
    by (simp only: r fill_samples.simps inner sum.case prod.case)
  also have "\<dots> = Inr ((done_p @ [?P k]) @ map ?P [Suc k..<Suc k + j] @ replicate (m - 1 - j) ?fill,
                         (done_t @ [?T k]) @ map ?T [Suc k..<Suc k + j] @ replicate (m - 1 - j) ?fill)"
    by (rule Suc.IH[OF lp lt])
  finally show ?case
    by (simp add: upt_conv_Cons del: upt_Suc)
qed

lemma fill_samples_all:
  assumes "set vars \<subseteq> set (data_vars rd)" "vars \<noteq> []" "m = 0 \<or> m = n"
  shows "fill_samples rd ds ls vars [0..<n]
           (replicate m (replicate (length vars) (replicate (length ls) None)),
            replicate m (replicate (length vars) (replicate (length ls) None)))
         = Inr (map (\<lambda>s. map (\<lambda>var. slab rd ds ls var s) vars) [0..<n],
                map (\<lambda>s. map (\<lambda>var. slab rd ds ls var (s + 1)) vars) [0..<n])"
  using fill_samples_range[OF assms(1,2), of "[]" 0 "[]" ds ls n m] assms(3)
  by auto



section \<open>Results on predict\<close>

subsection \<open>Shapes\<close>

lemma shaped_nth:
  assumes "shaped n T F b" "i < n"
  shows "length (b ! i) = T \<and> (\<forall>t < T. length (b ! i ! t) = F)"
proof -
  have "b ! i \<in> set b"
    using assms by (simp add: shaped_def)
  then have r: "length (b ! i) = T" "\<forall>c \<in> set (b ! i). length c = F"
    using assms(1) by (simp_all add: shaped_def)
  have "length (b ! i ! t) = F" if "t < T" for t
    using r that nth_mem[of t "b ! i"] by simp
  with r(1) show ?thesis by simp
qed

lemma shapedI:
  assumes "length b = n" "\<And>i. i < n \<Longrightarrow> length (b ! i) = T"
    and "\<And>i t. i < n \<Longrightarrow> t < T \<Longrightarrow> length (b ! i ! t) = F"
  shows "shaped n T F b"
  unfolding shaped_def using assms
  by (metis in_set_conv_nth)

lemma length_concat_rows:
  assumes "\<forall>row \<in> set a. length row = m"
  shows "length (concat a) = length a * m"
  using assms by (induction a) auto

lemma reshape_time_shaped:
  assumes "0 < T" "0 < n" "length a = n" "\<forall>row \<in> set a. length row = T * F"
  shows "\<exists>b. reshape_time n T a = Inr b \<and> shaped n T F b"
proof -
  let ?flat = "concat a"
  let ?b = "map (\<lambda>i. map (\<lambda>t. take (length ?flat div (n * T))
                                  (drop ((i * T + t) * (length ?flat div (n * T))) ?flat))
                        [0..<T])
              [0..<n]"
  have len: "length ?flat = (n * T) * F"
    using length_concat_rows[OF assms(4)] assms(3) by (simp add: mult.assoc)
  have nz: "0 < n * T"
    using assms(1,2) by simp
  have w: "length ?flat div (n * T) = F"
    using nz len by simp
  have run: "reshape_time n T a = Inr ?b"
    using nz len by (simp add: reshape_time_def)
  have "shaped n T F ?b"
  proof (rule shapedI)
    show "length ?b = n" by simp
  next
    fix i assume "i < n"
    then show "length (?b ! i) = T" by simp
  next
    fix i t assume i: "i < n" and t: "t < T"
    have "i * T + t < Suc i * T"
      using t by simp
    also have "\<dots> \<le> n * T"
      using i by (intro mult_le_mono1) simp
    finally have "Suc (i * T + t) \<le> n * T" by simp
    then have "Suc (i * T + t) * F \<le> (n * T) * F"
      by (rule mult_le_mono1)
    then show "length (?b ! i ! t) = F"
      using i t by (simp add: w len)
  qed
  with run show ?thesis by blast
qed

lemma flatten_time_rows:
  assumes "shaped n T F b"
  shows "length (flatten_time b) = n \<and> (\<forall>row \<in> set (flatten_time b). length row = T * F)"
proof -
  have "length (concat r) = T * F" if "r \<in> set b" for r
  proof -
    from that assms have "length r = T" "\<forall>c \<in> set r. length c = F"
      by (auto simp: shaped_def)
    then show ?thesis
      by (induction r arbitrary: T) auto
  qed
  with assms show ?thesis
    by (auto simp: flatten_time_def shaped_def)
qed

lemma first_index_less: "y \<in> set xs \<Longrightarrow> first_index xs y < length xs"
  by (induction xs) auto

lemma reindex_shaped:
  assumes "distinct old" "length old = n" "shaped n T F b" "shaped 1 T F [nan_sample]"
  shows "\<exists>b'. reindex old new nan_sample b = Inr b' \<and> shaped (length new) T F b'"
proof -
  let ?b = "map (\<lambda>c. if c \<in> set old then b ! first_index old c else nan_sample) new"
  have "shaped (length new) T F ?b"
    unfolding shaped_def
  proof (intro conjI ballI)
    show "length ?b = length new" by simp
  next
    fix r assume rb: "r \<in> set ?b"
    have each: "(if c \<in> set old then b ! first_index old c else nan_sample) \<in> set b \<union> {nan_sample}"
      for c
    proof (cases "c \<in> set old")
      case True
      then have "first_index old c < length b"
        using first_index_less[of c old] assms(2,3) by (simp add: shaped_def)
      with True show ?thesis by simp
    next
      case False
      then show ?thesis by simp
    qed
    have "set ?b \<subseteq> set b \<union> {nan_sample}"
      unfolding set_map using each by blast
    with rb have "r \<in> set b \<or> r = nan_sample" by blast
    then have ok: "length r = T \<and> (\<forall>c \<in> set r. length c = F)"
      using assms(3,4) by (auto simp: shaped_def)
    from ok show "length r = T" by simp
    fix c' assume "c' \<in> set r"
    with ok show "length c' = F" by simp
  qed
  with assms(1) show ?thesis by (simp add: reindex_def)
qed

lemma impute_write_nth:
  assumes "impute_write es p_mean b = Inr b'"
  shows "length b' = length b \<and> 0 < es \<and> es \<le> length b \<and>
         (\<forall>i < length b. b' ! i = (if length b - es \<le> i then p_mean else b ! i))"
proof -
  from assms have es: "0 < es" "es \<le> length b"
    and b': "b' = take (length b - es) b @ replicate es p_mean"
    by (auto simp: impute_write_def split: if_splits)
  have "b' ! i = (if length b - es \<le> i then p_mean else b ! i)" if "i < length b" for i
    using that es by (auto simp: b' nth_append)
  with es b' show ?thesis by simp
qed

lemma impute_write_shaped:
  assumes "0 < es" "es \<le> n" "shaped n T F b" "shaped 1 T F [p_mean]"
  shows "\<exists>b'. impute_write es p_mean b = Inr b' \<and> shaped n T F b'"
proof -
  have "set (take (n - es) b) \<subseteq> set b"
    by (rule set_take_subset)
  then have "shaped n T F (take (length b - es) b @ replicate es p_mean)"
    using assms by (auto simp: shaped_def)
  with assms show ?thesis
    by (simp add: impute_write_def shaped_def)
qed

lemma mean_over_samples_shaped: "shaped 1 T F [mean_over_samples m T F p]"
  by (auto simp: shaped_def mean_over_samples_def)

lemma insolation_write_shaped:
  assumes "shaped n T F b"
  shows "shaped n T F (insolation_write ins delta es sol coords b)"
proof (rule shapedI)
  show "length (insolation_write ins delta es sol coords b) = n"
    using assms by (simp add: insolation_write_def shaped_def)
next
  fix i assume "i < n"
  then show "length (insolation_write ins delta es sol coords b ! i) = T"
    using assms shaped_nth[OF assms, of i] by (simp add: insolation_write_def shaped_def)
next
  fix i t assume "i < n" "t < T"
  then show "length (insolation_write ins delta es sol coords b ! i ! t) = F"
    using assms shaped_nth[OF assms, of i] by (simp add: insolation_write_def shaped_def)
qed

lemma write_feature_shaped:
  assumes "shaped n T F b"
  shows "shaped n T F (write_feature t_in t_out cnt r ac b)"
proof (rule shapedI)
  show "length (write_feature t_in t_out cnt r ac b) = n"
    using assms by (simp add: write_feature_def shaped_def)
next
  fix i assume "i < n"
  then show "length (write_feature t_in t_out cnt r ac b ! i) = T"
    using assms shaped_nth[OF assms, of i] by (simp add: write_feature_def shaped_def)
next
  fix i t assume "i < n" "t < T"
  then show "length (write_feature t_in t_out cnt r ac b ! i ! t) = F"
    using assms shaped_nth[OF assms, of i] by (simp add: write_feature_def shaped_def)
qed

lemma foldl_write_feature_shaped:
  "shaped n T F b \<Longrightarrow> shaped n T F (foldl (\<lambda>b ac. write_feature t_in t_out cnt r ac b) b acs)"
  by (induction acs arbitrary: b) (auto simp: write_feature_shaped)

lemma feed_back_shaped:
  "shaped n T F b \<Longrightarrow> shaped n T F (feed_back keep pft es n_in n_out acs r b)"
  by (simp add: feed_back_def foldl_write_feature_shaped)

subsection \<open>What the feed-back writes\<close>

lemma write_feature_nth:
  assumes "shaped n T F b" "i < n" "t < T" "f < F"
  shows "write_feature t_in t_out cnt r ac b ! i ! t ! f =
           (if t_in \<le> t \<and> t < t_in + cnt \<and> f = fst ac
            then r ! i ! (t - t_in + t_out) ! snd ac else b ! i ! t ! f)"
  using assms shaped_nth[OF assms(1,2)]
  by (simp add: write_feature_def shaped_def)

lemma foldl_write_feature_nth:
  assumes "shaped n T F b" "i < n" "t < T" "f < F" "distinct (map fst acs)"
  shows "foldl (\<lambda>b ac. write_feature t_in t_out cnt r ac b) b acs ! i ! t ! f =
           (case map_of acs f of
              Some c \<Rightarrow> if t_in \<le> t \<and> t < t_in + cnt then r ! i ! (t - t_in + t_out) ! c
                        else b ! i ! t ! f
            | None \<Rightarrow> b ! i ! t ! f)"
  using assms(1,5)
proof (induction acs arbitrary: b)
  case Nil
  then show ?case by simp
next
  case (Cons ac acs)
  obtain a c where ac: "ac = (a, c)" by (cases ac)
  have sh: "shaped n T F (write_feature t_in t_out cnt r ac b)"
    using Cons.prems(1) by (rule write_feature_shaped)
  have d: "distinct (map fst acs)" and na: "a \<notin> fst ` set acs"
    using Cons.prems(2) ac by auto
  have none: "map_of acs a = None"
    using na by (simp add: map_of_eq_None_iff)
  show ?case
  proof (cases "f = a")
    case True
    then show ?thesis
      using Cons.IH[OF sh d] write_feature_nth[OF Cons.prems(1) assms(2,3,4), of t_in t_out cnt r ac]
      by (simp add: ac none)
  next
    case False
    then show ?thesis
      using Cons.IH[OF sh d] write_feature_nth[OF Cons.prems(1) assms(2,3,4), of t_in t_out cnt r ac]
      by (auto simp: ac split: option.splits)
  qed
qed

subsection \<open>Step sizes and the seed of the next input\<close>



subsection \<open>The imputation\<close>




subsection \<open>Invalid arguments\<close>

text \<open>
  Claim C9. \<^verbatim>\<open>predict\<close> with \<open>steps < 1\<close> raises ValueError without any call to the
  generator or the model; \<^verbatim>\<open>delete_nan_samples\<close> with a threshold below 0 or above 1
  raises ValueError and leaves the caller's arrays as they were.
\<close>

theorem invalid_arguments_raise_value_error:
  "(steps < 1 \<longrightarrow> predict e env steps impute keep_time_dim pft = ([], Inl ValueError)) \<and>
   (thr < 0 \<or> 1 < thr \<longrightarrow>
      delete_nan_samples p t lfv (Some thr) = ((p, t), Inl ValueError))"
  by (auto simp: predict_def delete_nan_samples_def threshold_ok_def)

theorem invalid_arguments_raise_value_error_witness:
  "predict
     \<lparr>add_insolation = False, uses_varlev = True, has_targets = False, is_series = True,
      output_sel = \<lparr>varlev = Some [''a''], variable = None, level = None\<rparr>,
      input_sel = \<lparr>varlev = Some [''a''], variable = None, level = None\<rparr>,
      outputs_in_inputs = \<lparr>varlev = Some [''a''], variable = None, level = None\<rparr>,
      dt = 6, input_time_steps = 1, output_time_steps = 1\<rparr>
     \<lparr>samples = [0, 6], generate_p = [[1], [2 :: int]], run_model = (\<lambda>x. x),
      insolation_at = (\<lambda>t. t), nan_grid = 0, mean_grids = sum_list\<rparr>
     0 True False True = ([], Inl ValueError) \<and>
   delete_nan_samples \<lparr>shape = [1], elems = [Fin 1]\<rparr> \<lparr>shape = [1], elems = [NaN]\<rparr> True (Some 2)
     = ((\<lparr>shape = [1], elems = [Fin 1]\<rparr>, \<lparr>shape = [1], elems = [NaN]\<rparr>), Inl ValueError)"
  using invalid_arguments_raise_value_error
    [of 0 "\<lparr>add_insolation = False, uses_varlev = True, has_targets = False, is_series = True,
      output_sel = \<lparr>varlev = Some [''a''], variable = None, level = None\<rparr>,
      input_sel = \<lparr>varlev = Some [''a''], variable = None, level = None\<rparr>,
      outputs_in_inputs = \<lparr>varlev = Some [''a''], variable = None, level = None\<rparr>,
      dt = 6, input_time_steps = 1, output_time_steps = 1\<rparr>"
     "\<lparr>samples = [0, 6], generate_p = [[1], [2 :: int]], run_model = (\<lambda>x. x),
      insolation_at = (\<lambda>t. t), nan_grid = 0, mean_grids = sum_list\<rparr>"
     True False True 2 "\<lparr>shape = [1], elems = [Fin 1]\<rparr>" "\<lparr>shape = [1], elems = [NaN]\<rparr>" True]
  by simp

subsection \<open>A pass of the loop on consistent data\<close>

lemma label_indices_ok:
  "list_all (\<lambda>l. l \<in> set axis) ls \<Longrightarrow>
     \<exists>is. label_indices axis ls = Inr is \<and> length is = length ls"
  by (induction ls) (auto simp: label_index_def)

lemma step_sizes_es:
  assumes "step_sizes n_in n_out pft = (keep, es, in_times)"
  shows "keep = (n_out \<le> n_in)"
    and "es = (if n_out \<le> n_in then n_out else if pft then n_in else n_out)"
  using assms by (auto simp: step_sizes_def split: if_splits)

lemma predict_step_ok:
  assumes v: "valid_forecast e env impute pft"
    and ss: "step_sizes (input_time_steps e) (output_time_steps e) pft = (keep, es, in_times)"
    and sh: "shaped (length (samples env)) (input_time_steps e)
               (length (the (varlev (input_sel e)))) (p_cells st)"
    and co: "distinct (p_coords st)" "length (p_coords st) = length (samples env)"
    and pm: "impute \<longrightarrow> (\<exists>m. p_mean = Some m \<and>
               shaped 1 (input_time_steps e) (length (the (varlev (input_sel e)))) [m])"
  shows "\<exists>st' r. predict_step e env impute pft p_mean st = Inr st' \<and>
           shaped (length (samples env)) (input_time_steps e)
             (length (the (varlev (input_sel e)))) (p_cells st') \<and>
           distinct (p_coords st') \<and> length (p_coords st') = length (samples env) \<and>
           results st' = results st @ [r] \<and>
           shaped (length (samples env)) (output_time_steps e)
             (length (the (varlev (output_sel e)))) r"
proof -
  let ?n = "length (samples env)"
  let ?IN = "input_time_steps e" and ?OUT = "output_time_steps e"
  let ?il = "the (varlev (input_sel e))" and ?ol = "the (varlev (output_sel e))"
  let ?ov = "the (varlev (outputs_in_inputs e))"
  let ?out = "run_model env (flatten_time (p_cells st))"
  let ?new = "map (\<lambda>c. c + int es * dt e) (samples env)"
  let ?nan = "replicate ?IN (replicate (length ?il) (nan_grid env))"
  note vd = v[unfolded valid_forecast_def Let_def ss fst_conv snd_conv]
  have pos: "0 < ?n" "0 < ?IN" "0 < ?OUT" and ds: "distinct (samples env)"
    and gl: "length (generate_p env) = ?n"
    using vd by simp_all
  have es: "0 < es"
    using step_sizes_es(2)[OF ss] pos by (auto split: if_splits)
  have fl: "length (flatten_time (p_cells st)) = ?n"
       "list_all (\<lambda>row. length row = ?IN * length ?il) (flatten_time (p_cells st))"
    using flatten_time_rows[OF sh] by (simp_all add: list_all_iff)
  have mo: "length ?out = ?n" "list_all (\<lambda>row. length row = ?OUT * length ?ol) ?out"
    using vd fl by blast+
  have "\<forall>row \<in> set ?out. length row = ?OUT * length ?ol"
    using mo(2) by (simp add: list_all_iff)
  from reshape_time_shaped[OF pos(3) pos(1) mo(1) this]
  obtain r where r: "reshape_time ?n ?OUT ?out = Inr r" "shaped ?n ?OUT (length ?ol) r"
    by auto
  have da: "data_array ?n ?OUT (length ?ol) r = Inr r"
    using r(2) by (simp add: data_array_def)
  have nan: "shaped 1 ?IN (length ?il) [?nan]"
    by (simp add: shaped_def)
  from reindex_shaped[OF co(1) co(2) sh nan, of ?new]
  obtain b1 where b1: "reindex (p_coords st) ?new ?nan (p_cells st) = Inr b1"
    "shaped ?n ?IN (length ?il) b1"
    by auto
  have "\<exists>b2. (if impute then impute_write es (the p_mean) b1 else Inr b1) = Inr b2 \<and>
              shaped ?n ?IN (length ?il) b2"
  proof (cases impute)
    case True
    with pm obtain m where m: "p_mean = Some m" "shaped 1 ?IN (length ?il) [m]" by auto
    have "es \<le> ?n" using vd True by simp
    from impute_write_shaped[OF es this b1(2) m(2)] True m(1) show ?thesis by simp
  next
    case False
    with b1(2) show ?thesis by simp
  qed
  then obtain b2 where b2: "(if impute then impute_write es (the p_mean) b1 else Inr b1) = Inr b2"
    "shaped ?n ?IN (length ?il) b2"
    by auto
  let ?ins = "(if add_insolation e
               then (case label_index ?il ''SOL'' of
                       Inl err \<Rightarrow> Inl err
                     | Inr sol \<Rightarrow>
                         Inr (insolation_write (insolation_at env) (dt e) es sol ?new b2))
               else Inr b2)"
  have "\<exists>b3. ?ins = Inr b3 \<and> shaped ?n ?IN (length ?il) b3"
  proof (cases "add_insolation e")
    case True
    then have "''SOL'' \<in> set ?il" using vd by simp
    then show ?thesis
      using True insolation_write_shaped[OF b2(2)] by (simp add: label_index_def)
  next
    case False
    with b2(2) show ?thesis by simp
  qed
  then obtain b3 where b3: "?ins = Inr b3" "shaped ?n ?IN (length ?il) b3"
    by auto
  have "list_all (\<lambda>l. l \<in> set ?il) ?ov" "list_all (\<lambda>l. l \<in> set ?ol) ?ov"
    using vd by (simp_all add: list_all_iff)
  from label_indices_ok[OF this(1)] label_indices_ok[OF this(2)]
  obtain as cs where ac: "label_indices ?il ?ov = Inr as" "label_indices ?ol ?ov = Inr cs"
    by auto
  let ?st' = "\<lparr>p_coords = ?new,
               p_cells = feed_back keep pft es ?IN ?OUT (zip as cs) r b3,
               results = results st @ [r]\<rparr>"
  have run: "predict_step e env impute pft p_mean st = Inr ?st'"
    unfolding predict_step_def Let_def ss prod.case
    using gl by (simp add: r(1) da b1(1) b2(1) b3(1) ac)
  have dn: "distinct ?new"
    using ds by (simp add: distinct_map inj_on_def)
  from run feed_back_shaped[OF b3(2)] dn r(2) show ?thesis
    by (intro exI[of _ ?st'] exI[of _ r]) simp
qed

lemma predict_loop_ok:
  assumes v: "valid_forecast e env impute pft"
    and ss: "step_sizes (input_time_steps e) (output_time_steps e) pft = (keep, es, in_times)"
    and pm: "impute \<longrightarrow> (\<exists>m. p_mean = Some m \<and>
               shaped 1 (input_time_steps e) (length (the (varlev (input_sel e)))) [m])"
  shows "shaped (length (samples env)) (input_time_steps e)
           (length (the (varlev (input_sel e)))) (p_cells st) \<Longrightarrow>
         distinct (p_coords st) \<Longrightarrow> length (p_coords st) = length (samples env) \<Longrightarrow>
         list_all (shaped (length (samples env)) (output_time_steps e)
                     (length (the (varlev (output_sel e))))) (results st) \<Longrightarrow>
         \<exists>st'. predict_loop e env impute pft p_mean k evs st
                  = (evs @ replicate k ModelPredict, Inr st') \<and>
               length (results st') = length (results st) + k \<and>
               list_all (shaped (length (samples env)) (output_time_steps e)
                           (length (the (varlev (output_sel e))))) (results st')"
proof (induction k arbitrary: evs st)
  case 0
  then show ?case by simp
next
  case (Suc k)
  from predict_step_ok[OF v ss Suc.prems(1,2,3) pm]
  obtain st1 r where s1: "predict_step e env impute pft p_mean st = Inr st1"
    and sh1: "shaped (length (samples env)) (input_time_steps e)
                (length (the (varlev (input_sel e)))) (p_cells st1)"
    and c1: "distinct (p_coords st1)" "length (p_coords st1) = length (samples env)"
    and r1: "results st1 = results st @ [r]"
            "shaped (length (samples env)) (output_time_steps e)
               (length (the (varlev (output_sel e)))) r"
    by blast
  have all1: "list_all (shaped (length (samples env)) (output_time_steps e)
                          (length (the (varlev (output_sel e))))) (results st1)"
    using Suc.prems(4) r1 by simp
  from Suc.IH[OF sh1 c1 all1, of "evs @ [ModelPredict]"]
  obtain st' where
    "predict_loop e env impute pft p_mean k (evs @ [ModelPredict]) st1
       = ((evs @ [ModelPredict]) @ replicate k ModelPredict, Inr st')"
    "length (results st') = length (results st1) + k"
    "list_all (shaped (length (samples env)) (output_time_steps e)
                 (length (the (varlev (output_sel e))))) (results st')"
    by blast
  then show ?case
    using s1 r1(1) by (simp add: replicate_app_Cons_same)
qed

subsection \<open>The assembled array\<close>

lemma arange_hours:
  assumes "d \<noteq> 0"
  shows "arange d ((int k * int es + 1) * d) d = Inr (map (\<lambda>j. (int j + 1) * d) [0..<k * es])"
proof -
  have "d - (int k * int es + 1) * d = (- (int k * int es)) * d"
    by (simp add: algebra_simps)
  then have "(d - (int k * int es + 1) * d) div d = (- (int k * int es)) * d div d"
    by (simp only:)
  also have "\<dots> = - (int k * int es)"
    using assms by (rule nonzero_mult_div_cancel_right)
  finally have "(d - (int k * int es + 1) * d) div d = - (int k * int es)" .
  then have n: "nat (- ((d - (int k * int es + 1) * d) div d)) = k * es"
    by (simp add: nat_mult_distrib)
  show ?thesis
    unfolding arange_def n using assms by (simp add: algebra_simps)
qed

lemma arange_steps:
  assumes "d \<noteq> 0" "0 < es"
  shows "arange d ((int k * int es + 1) * d) (int es * d)
           = Inr (map (\<lambda>j. d + int j * (int es * d)) [0..<k])"
proof -
  have nz: "int es * d \<noteq> 0"
    using assms by simp
  have "d - (int k * int es + 1) * d = (- int k) * (int es * d)"
    by (simp add: algebra_simps)
  then have "(d - (int k * int es + 1) * d) div (int es * d)
               = (- int k) * (int es * d) div (int es * d)"
    by (simp only:)
  also have "\<dots> = - int k"
    using nz by (rule nonzero_mult_div_cancel_right)
  finally have "(d - (int k * int es + 1) * d) div (int es * d) = - int k" .
  then have n: "nat (- ((d - (int k * int es + 1) * d) div (int es * d))) = k"
    by simp
  show ?thesis
    unfolding arange_def n using assms by simp
qed

lemma length_concat_const:
  assumes "\<forall>x \<in> set xs. length (f x) = m"
  shows "length (concat (map f xs)) = length xs * m"
  using assms by (induction xs) auto

lemma assemble_steps_ok:
  assumes "dt e \<noteq> 0" "0 < es" "length res = k"
    and "step_sizes (input_time_steps e) (output_time_steps e) pft = (keep, es, in_times)"
  shows "assemble_steps e env k pft res =
           Inr \<lparr>f_hour = map (\<lambda>j. dt e + int j * (int es * dt e)) [0..<k],
                time = map (\<lambda>c. c + (int (input_time_steps e) - 1) * dt e) (samples env),
                time_step = Some [0..<output_time_steps e],
                varlev_axis = the (varlev (output_sel e)),
                frames = res\<rparr>"
  unfolding assemble_steps_def Let_def assms(4) prod.case
  using assms(3) by (simp add: arange_steps[OF assms(1,2)])

lemma assemble_series_ok:
  assumes "dt e \<noteq> 0" "0 < n" "length res = k"
    and ss: "step_sizes (input_time_steps e) (output_time_steps e) pft = (keep, es, in_times)"
    and sh: "list_all (shaped n (output_time_steps e) F) res"
  shows "\<exists>merged. assemble_series e env k pft res =
           Inr \<lparr>f_hour = map (\<lambda>j. (int j + 1) * dt e) [0..<k * es],
                time = map (\<lambda>c. c + (int (input_time_steps e) - 1) * dt e) (samples env),
                time_step = None,
                varlev_axis = the (varlev (output_sel e)),
                frames = merged\<rparr> \<and> length merged = k * es"
proof -
  let ?cut = "(if \<not> keep \<and> pft then map (map (take es)) res else res)"
  let ?merged = "concat (map (\<lambda>r. map (\<lambda>t. map (\<lambda>row. row ! t) r) [0..<length (hd r)]) ?cut)"
  have hd_len: "length (hd r) = output_time_steps e" if "r \<in> set res" for r
  proof -
    from that sh have s: "shaped n (output_time_steps e) F r"
      by (simp add: list_all_iff)
    then have "r \<noteq> []" using assms(2) by (auto simp: shaped_def)
    then have "hd r \<in> set r" by simp
    with s show ?thesis by (simp add: shaped_def)
  qed
  have ne: "r \<noteq> []" if "r \<in> set res" for r
    using that sh assms(2) by (auto simp: list_all_iff shaped_def)
  have each: "\<forall>r \<in> set ?cut. length (map (\<lambda>t. map (\<lambda>row. row ! t) r) [0..<length (hd r)]) = es"
  proof (cases "\<not> keep \<and> pft")
    case True
    then have "es = input_time_steps e" "\<not> output_time_steps e \<le> input_time_steps e"
      using step_sizes_es[OF ss] by (auto split: if_splits)
    then have le: "es \<le> output_time_steps e" by simp
    have "length (hd (map (take es) r)) = es" if "r \<in> set res" for r
      using hd_len[OF that] ne[OF that] le by (simp add: hd_map)
    with True show ?thesis by auto
  next
    case False
    then have "es = output_time_steps e"
      using step_sizes_es[OF ss] by (auto split: if_splits)
    with False hd_len show ?thesis by auto
  qed
  have len: "length ?merged = k * es"
    using length_concat_const[OF each] assms(3) by (simp split: if_splits)
  have "assemble_series e env k pft res =
          Inr \<lparr>f_hour = map (\<lambda>j. (int j + 1) * dt e) [0..<k * es],
               time = map (\<lambda>c. c + (int (input_time_steps e) - 1) * dt e) (samples env),
               time_step = None,
               varlev_axis = the (varlev (output_sel e)),
               frames = ?merged\<rparr>"
    unfolding assemble_series_def Let_def ss prod.case
    using len by (simp add: arange_hours[OF assms(1)])
  with len show ?thesis by blast
qed

lemma unstack_varlev_ok:
  assumes "distinct var" "distinct lev" "length xs = length var * length lev"
  shows "\<exists>u. unstack_varlev var lev xs = Inr u"
  using assms by (simp add: unstack_varlev_def Let_def distinct_product)

lemma unstack_varlev_error: "unstack_varlev var lev xs = Inl err \<Longrightarrow> err = ValueError"
  by (auto simp: unstack_varlev_def Let_def split: if_splits)

lemma expand_series_separate:
  assumes "\<not> uses_varlev e"
    and "distinct (the (variable (output_sel e)))" "distinct (the (level (output_sel e)))"
    and "length (the (variable (output_sel e))) * length (the (level (output_sel e)))
           = length (varlev_axis res)"
  shows "\<exists>vs ls d. expand_series e res = Inr (ByVariableLevel (f_hour res) (time res) vs ls d) \<and>
           length d = length (f_hour res)"
proof -
  let ?bf = "map (\<lambda>f. map (map (\<lambda>cell. cell ! f)) (frames res)) [0..<length (varlev_axis res)]"
  have "length ?bf = length (the (variable (output_sel e))) * length (the (level (output_sel e)))"
    using assms(4) by simp
  from unstack_varlev_ok[OF assms(2,3) this]
  obtain u where u: "unstack_varlev (the (variable (output_sel e)))
                       (the (level (output_sel e))) ?bf = Inr u"
    by blast
  show ?thesis
    unfolding expand_series_def Let_def
    using assms(1) by (simp add: u)
qed

lemma expand_steps_separate:
  assumes "\<not> uses_varlev e"
  shows "expand_steps e res = Inl ValueError"
  unfolding expand_steps_def Let_def
  using assms by (auto split: sum.splits dest: unstack_varlev_error)

subsection \<open>The leading axis of the forecast\<close>

text \<open>
  A run of \<^verbatim>\<open>predict\<close> with \<open>steps \<ge> 1\<close> on consistent data: one call of the generator and
  \<open>steps\<close> calls of the model. Without \<^verbatim>\<open>keep_time_dim\<close> the array returned has
  \<open>steps * es\<close> entries along its leading axis, with the forecast hours \<open>dt, 2 dt, \<dots>,
  steps * es * dt\<close>, for either convention of the dataset. With \<^verbatim>\<open>keep_time_dim\<close> and
  compound labels it has \<open>steps\<close> entries, the forecast hours starting at \<open>dt\<close> in
  increments of \<open>es * dt\<close>. With \<^verbatim>\<open>keep_time_dim\<close> and separate variable and level axes
  no array is returned: the call ends in ValueError.
\<close>

lemma predict_leading_axis:
  assumes v: "valid_forecast e env impute pft" and st: "1 \<le> steps"
    and ss: "step_sizes (input_time_steps e) (output_time_steps e) pft = (keep, es, in_times)"
  shows "\<exists>outcome.
           predict e env steps impute keep_time_dim pft
             = (Generate # replicate (nat steps) ModelPredict, outcome) \<and>
           (if keep_time_dim then
              (if uses_varlev e then
                 (\<exists>r. outcome = Inr (WithTimeStep r) \<and> length (frames r) = nat steps \<and>
                       f_hour r = map (\<lambda>j. dt e + int j * (int es * dt e)) [0..<nat steps])
               else outcome = Inl ValueError)
            else
              (if uses_varlev e then
                 (\<exists>r. outcome = Inr (Series r) \<and> length (frames r) = nat steps * es \<and>
                       f_hour r = map (\<lambda>j. (int j + 1) * dt e) [0..<nat steps * es])
               else
                 (\<exists>times vs ls d.
                    outcome = Inr (ByVariableLevel
                                     (map (\<lambda>j. (int j + 1) * dt e) [0..<nat steps * es])
                                     times vs ls d) \<and>
                    length d = nat steps * es)))"
proof -
  let ?n = "length (samples env)"
  let ?IN = "input_time_steps e" and ?OUT = "output_time_steps e"
  let ?il = "the (varlev (input_sel e))" and ?ol = "the (varlev (output_sel e))"
  note vd = v[unfolded valid_forecast_def Let_def ss fst_conv snd_conv]
  have pos: "0 < ?n" "0 < ?IN" "0 < ?OUT" and dt0: "dt e \<noteq> 0" and ds: "distinct (samples env)"
    and gl: "length (generate_p env) = ?n"
    and gr: "\<forall>row \<in> set (generate_p env). length row = ?IN * length ?il"
    using vd by (simp_all add: list_all_iff)
  have es: "0 < es"
    using step_sizes_es(2)[OF ss] pos by (auto split: if_splits)
  from reshape_time_shaped[OF pos(2) pos(1) gl gr] gl
  obtain p where p: "reshape_time (length (generate_p env)) ?IN (generate_p env) = Inr p"
    "shaped ?n ?IN (length ?il) p"
    by auto
  have da: "data_array ?n ?IN (length ?il) p = Inr p"
    using p(2) by (simp add: data_array_def)
  let ?pm = "(if impute then Some (mean_over_samples (mean_grids env) ?IN (length ?il) p) else None)"
  have pm: "impute \<longrightarrow> (\<exists>m. ?pm = Some m \<and> shaped 1 ?IN (length ?il) [m])"
    using mean_over_samples_shaped[of ?IN "length ?il" "mean_grids env" p] by simp
  let ?st0 = "\<lparr>p_coords = samples env, p_cells = p, results = []\<rparr>"
  from predict_loop_ok[OF v ss pm, of ?st0 "nat steps" "[Generate]"] p(2) ds
  obtain st' where
    loop: "predict_loop e env impute pft ?pm (nat steps) [Generate] ?st0
             = ([Generate] @ replicate (nat steps) ModelPredict, Inr st')"
    and len: "length (results st') = nat steps"
    and sh: "list_all (shaped ?n ?OUT (length ?ol)) (results st')"
    by auto
  have run: "predict e env steps impute keep_time_dim pft =
               (Generate # replicate (nat steps) ModelPredict,
                if keep_time_dim then
                  (case assemble_steps e env (nat steps) pft (results st') of
                     Inl err \<Rightarrow> Inl err
                   | Inr res \<Rightarrow> expand_steps e res)
                else
                  (case assemble_series e env (nat steps) pft (results st') of
                     Inl err \<Rightarrow> Inl err
                   | Inr res \<Rightarrow> expand_series e res))"
    unfolding predict_def Let_def
    using st by (simp add: p(1) da loop split: sum.splits)
  show ?thesis
  proof (cases keep_time_dim)
    case True
    note a = assemble_steps_ok[OF dt0 es len ss, of env]
    show ?thesis
    proof (cases "uses_varlev e")
      case uv: True
      show ?thesis
        unfolding run using True uv len by (simp add: a expand_steps_def)
    next
      case uv: False
      show ?thesis
        unfolding run using True uv by (simp add: a expand_steps_separate)
    qed
  next
    case False
    from assemble_series_ok[OF dt0 pos(1) len ss sh, of env]
    obtain merged where
      a: "assemble_series e env (nat steps) pft (results st') =
            Inr \<lparr>f_hour = map (\<lambda>j. (int j + 1) * dt e) [0..<nat steps * es],
                 time = map (\<lambda>c. c + (int ?IN - 1) * dt e) (samples env),
                 time_step = None, varlev_axis = ?ol, frames = merged\<rparr>"
      and m: "length merged = nat steps * es"
      by blast
    show ?thesis
    proof (cases "uses_varlev e")
      case uv: True
      show ?thesis
        unfolding run using False uv m by (simp add: a expand_series_def)
    next
      case uv: False
      let ?res = "\<lparr>f_hour = map (\<lambda>j. (int j + 1) * dt e) [0..<nat steps * es],
                   time = map (\<lambda>c. c + (int ?IN - 1) * dt e) (samples env),
                   time_step = None, varlev_axis = ?ol, frames = merged\<rparr>"
      have "distinct (the (variable (output_sel e)))" "distinct (the (level (output_sel e)))"
        "length (the (variable (output_sel e))) * length (the (level (output_sel e)))
           = length (varlev_axis ?res)"
        using vd uv by simp_all
      from expand_series_separate[OF uv this]
      obtain vs ls d where
        "expand_series e ?res = Inr (ByVariableLevel (f_hour ?res) (time ?res) vs ls d)"
        "length d = length (f_hour ?res)"
        by auto
      then show ?thesis
        unfolding run using False uv by (simp add: a)
    qed
  qed
qed

text \<open>
  Claim C1, at an input with separate variable and level axes and \<^verbatim>\<open>keep_time_dim=True\<close>:
  three samples six hours apart, two input time steps, one output time step, the input
  features \<^verbatim>\<open>a/5\<close> and \<^verbatim>\<open>b/5\<close>, the output feature \<^verbatim>\<open>a/5\<close>, and a model that sums its
  inputs; \<open>steps = 2\<close>. The generator is called once and the model twice, and the call ends
  in ValueError instead of returning an array with two entries along its leading axis.
\<close>

theorem predict_keep_time_dim_separate_axes_raises:
  "predict
     \<lparr>add_insolation = False, uses_varlev = False, has_targets = False, is_series = True,
      output_sel = \<lparr>varlev = Some [''a/5''], variable = Some [''a''], level = Some [5]\<rparr>,
      input_sel = \<lparr>varlev = Some [''a/5'', ''b/5''], variable = Some [''a'', ''b''],
                    level = Some [5]\<rparr>,
      outputs_in_inputs = \<lparr>varlev = Some [''a/5''], variable = Some [''a''], level = Some [5]\<rparr>,
      dt = 6, input_time_steps = 2, output_time_steps = 1\<rparr>
     \<lparr>samples = [0, 6, 12], generate_p = [[1, 2, 3, 4], [5, 6, 7, 8], [9, 10, 11, 12 :: int]],
      run_model = map (\<lambda>row. [sum_list row]), insolation_at = (\<lambda>t. 1000 + t),
      nan_grid = - 1, mean_grids = (\<lambda>xs. sum_list xs div int (length xs))\<rparr>
     2 False True True
   = ([Generate, ModelPredict, ModelPredict], Inl ValueError)"
proof -
  let ?e = "\<lparr>add_insolation = False, uses_varlev = False, has_targets = False, is_series = True,
      output_sel = \<lparr>varlev = Some [''a/5''], variable = Some [''a''], level = Some [5]\<rparr>,
      input_sel = \<lparr>varlev = Some [''a/5'', ''b/5''], variable = Some [''a'', ''b''],
                    level = Some [5]\<rparr>,
      outputs_in_inputs = \<lparr>varlev = Some [''a/5''], variable = Some [''a''], level = Some [5]\<rparr>,
      dt = 6, input_time_steps = 2, output_time_steps = 1\<rparr>"
  let ?env = "\<lparr>samples = [0, 6, 12], generate_p = [[1, 2, 3, 4], [5, 6, 7, 8], [9, 10, 11, 12 :: int]],
      run_model = map (\<lambda>row. [sum_list row]), insolation_at = (\<lambda>t. 1000 + t),
      nan_grid = - 1, mean_grids = (\<lambda>xs. sum_list xs div int (length xs))\<rparr>"
  have u2: "[0..<2] = [0, 1]"
    by (simp add: upt_conv_Cons del: upt_Suc)
  have ss: "step_sizes (input_time_steps ?e) (output_time_steps ?e) True = (True, 1, [- 1, 0])"
    by (simp add: step_sizes_def u2)
  have v: "valid_forecast ?e ?env False True"
    unfolding valid_forecast_def Let_def ss
    by (simp add: list_all_iff)
  have n: "replicate 2 ModelPredict = [ModelPredict, ModelPredict]"
    by (simp add: numeral_2_eq_2)
  from predict_leading_axis[OF v _ ss, of 2 True] show ?thesis
    by (simp add: n)
qed

end
